theory Spec2Isabelle
  imports Main
begin

section \<open>Python strings\<close>

text \<open>
  A Python \<open>str\<close> is modelled as a \<open>string\<close>, each \<open>char\<close> read as one code point in
  the range 0..255. The functions of this section are the built-in string methods that
  \<open>snakefmt/formatter.py\<close> calls, with the behaviour CPython gives them on such code points.
\<close>

text \<open>\<open>str.isspace\<close> and the default argument of \<open>str.strip\<close>: the white space characters.\<close>

definition is_space :: "char \<Rightarrow> bool" where
  "is_space c = (c \<in> {CHR 0x09, CHR 0x0A, CHR 0x0B, CHR 0x0C, CHR 0x0D, CHR 0x1C,
     CHR 0x1D, CHR 0x1E, CHR 0x1F, CHR 0x20, CHR 0x85, CHR 0xA0})"

text \<open>The line boundaries of \<open>str.splitlines\<close>; the pair CR LF counts as one boundary.\<close>

definition is_linebreak :: "char \<Rightarrow> bool" where
  "is_linebreak c = (c \<in> {CHR 0x0A, CHR 0x0B, CHR 0x0C, CHR 0x0D, CHR 0x1C, CHR 0x1D,
     CHR 0x1E, CHR 0x85})"

text \<open>\<open>s.splitlines()\<close>: the lines without their line endings.\<close>

fun splitlines :: "string \<Rightarrow> string list" where
  "splitlines [] = []"
| "splitlines [c] = (if is_linebreak c then [[]] else [[c]])"
| "splitlines (c # d # cs) =
     (if c = CHR 0x0D \<and> d = CHR 0x0A then [] # splitlines cs
      else if is_linebreak c then [] # splitlines (d # cs)
      else (case splitlines (d # cs) of [] \<Rightarrow> [[c]] | l # ls \<Rightarrow> (c # l) # ls))"

text \<open>\<open>s.splitlines(True)\<close>: the lines with their line endings kept.\<close>

fun splitlines_keepends :: "string \<Rightarrow> string list" where
  "splitlines_keepends [] = []"
| "splitlines_keepends [c] = [[c]]"
| "splitlines_keepends (c # d # cs) =
     (if c = CHR 0x0D \<and> d = CHR 0x0A then [c, d] # splitlines_keepends cs
      else if is_linebreak c then [c] # splitlines_keepends (d # cs)
      else (case splitlines_keepends (d # cs) of [] \<Rightarrow> [[c]] | l # ls \<Rightarrow> (c # l) # ls))"

text \<open>\<open>sep.join(xs)\<close>.\<close>

fun join :: "string \<Rightarrow> string list \<Rightarrow> string" where
  "join sep [] = []"
| "join sep [x] = x"
| "join sep (x # y # ys) = x @ sep @ join sep (y # ys)"

text \<open>\<open>s.rstrip()\<close>, \<open>s.rstrip(chars)\<close> and \<open>s.strip(chars)\<close>.\<close>

definition rstrip :: "string \<Rightarrow> string" where
  "rstrip s = rev (dropWhile is_space (rev s))"

definition rstrip_chars :: "string \<Rightarrow> string \<Rightarrow> string" where
  "rstrip_chars chars s = rev (dropWhile (\<lambda>c. c \<in> set chars) (rev s))"

definition strip_chars :: "string \<Rightarrow> string \<Rightarrow> string" where
  "strip_chars chars s = rstrip_chars chars (dropWhile (\<lambda>c. c \<in> set chars) s)"

text \<open>\<open>s.isspace()\<close>: at least one character, and only white space.\<close>

definition isspace :: "string \<Rightarrow> bool" where
  "isspace s = (s \<noteq> [] \<and> list_all is_space s)"

text \<open>\<open>s.startswith(p)\<close>, \<open>s.endswith(p)\<close> and \<open>sub in s\<close>.\<close>

definition startswith :: "string \<Rightarrow> string \<Rightarrow> bool" where
  "startswith s p = (take (length p) s = p)"

definition endswith :: "string \<Rightarrow> string \<Rightarrow> bool" where
  "endswith s p = (length p \<le> length s \<and> drop (length s - length p) s = p)"

fun contains :: "string \<Rightarrow> string \<Rightarrow> bool" where
  "contains sub [] = (sub = [])"
| "contains sub (c # cs) = (startswith (c # cs) sub \<or> contains sub cs)"

text \<open>
  \<open>s.replace(old, new)\<close>: every occurrence of \<open>old\<close>, found from the left and without
  overlap, becomes \<open>new\<close>. With an empty \<open>old\<close> Python puts \<open>new\<close> around every character.
\<close>

fun replace_from :: "string \<Rightarrow> string \<Rightarrow> string \<Rightarrow> string" where
  "replace_from old new [] = []"
| "replace_from old new (c # cs) =
     (if startswith (c # cs) old then new @ replace_from old new (drop (length old - 1) cs)
      else c # replace_from old new cs)"

definition replace :: "string \<Rightarrow> string \<Rightarrow> string \<Rightarrow> string" where
  "replace s old new =
     (if old = [] then new @ concat (map (\<lambda>c. c # new) s) else replace_from old new s)"

text \<open>\<open>s * n\<close> for a Python integer \<open>n\<close>: the empty string when \<open>n\<close> is not positive.\<close>

definition times :: "string \<Rightarrow> int \<Rightarrow> string" where
  "times s n = concat (replicate (nat n) s)"

section \<open>The formatter's state\<close>

text \<open>
  Modelled from the spec: \<open>TAB\<close> is imported from \<open>snakefmt.parser.syntax\<close>, which is not
  part of the sources at hand. The spec's rendering examples indent one level by four spaces.
\<close>

definition TAB :: string where
  "TAB = ''    ''"

text \<open>
  The attributes of a \<open>Formatter\<close> that its methods read and write. \<open>result\<close>,
  \<open>lagging_comments\<close> and \<open>first\<close> are set by \<open>__init__\<close>; \<open>buffer\<close> and
  \<open>self_target_indent\<close> (the attribute \<open>target_indent\<close>) belong to the parser base class,
  which fills them between the calls.
\<close>

record formatter =
  result :: string
  lagging_comments :: string
  first :: bool
  buffer :: string
  self_target_indent :: int

definition init :: formatter where
  "init = \<lparr>result = [], lagging_comments = [], first = True, buffer = [], self_target_indent = 0\<rparr>"

datatype error =
  InvalidPython string
| InvalidParameterSyntax string
| AttributeError

section \<open>Committing a block: \<open>add_newlines\<close>\<close>

text \<open>
  The loop \<open>for line in reversed(all_lines)\<close>: the argument is the reversed list, the result
  is \<open>comment_matches\<close> when the loop ends or breaks.
\<close>

fun count_comment_lines :: "string list \<Rightarrow> nat" where
  "count_comment_lines [] = 0"
| "count_comment_lines (line # rest) =
     (if length line = 0 \<or> hd line \<noteq> CHR ''#'' then 0
      else 1 + count_comment_lines rest)"

text \<open>The last statement of \<open>add_newlines\<close>, which clears \<open>first\<close>.\<close>

definition clear_first :: "nat \<Rightarrow> formatter \<Rightarrow> formatter" where
  "clear_first comment_break self =
     (if first self then (if comment_break \<noteq> 0 then self\<lparr>first := False\<rparr> else self)
      else self)"

definition add_newlines :: "int \<Rightarrow> string \<Rightarrow> bool \<Rightarrow> formatter \<Rightarrow> formatter" where
  "add_newlines cur_indent formatted_string final_flush self =
     (if cur_indent = 0 then
        (let s1 = (if \<not> first self then self\<lparr>result := result self @ ''\<newline>\<newline>''\<rparr>
                   else self);
             s2 = (if lagging_comments s1 \<noteq> []
                   then s1\<lparr>result := result s1 @ lagging_comments s1, lagging_comments := []\<rparr>
                   else s1);
             all_lines = splitlines formatted_string
         in if length all_lines > 0 then
              (let comment_matches = count_comment_lines (rev all_lines);
                   comment_break = length all_lines - comment_matches;
                   s3 = (if comment_break > 0
                         then s2\<lparr>result := result s2
                                @ rstrip (join ''\<newline>'' (take comment_break all_lines))
                                @ ''\<newline>''\<rparr>
                         else s2);
                   s4 = (if comment_matches > 0
                         then (let s = s3\<lparr>lagging_comments :=
                                      join ''\<newline>'' (drop comment_break all_lines)
                                      @ ''\<newline>''\<rparr>
                               in if final_flush
                                  then s\<lparr>result := result s @ lagging_comments s\<rparr>
                                  else s)
                         else s3)
               in clear_first comment_break s4)
            else clear_first 1 s2)
      else clear_first 1 (self\<lparr>result := result self @ formatted_string\<rparr>))"

section \<open>Flushing the buffer and emitting keywords\<close>

text \<open>\<open>s.strip()\<close>, used by \<open>textwrap.indent\<close> to decide which lines get the prefix.\<close>

definition strip :: "string \<Rightarrow> string" where
  "strip s = rstrip (dropWhile is_space s)"

text \<open>
  \<open>textwrap.indent(text, prefix)\<close> of the standard library: the prefix goes in front of every
  line that does not consist of white space only.
\<close>

definition indent :: "string \<Rightarrow> string \<Rightarrow> string" where
  "indent text prefix =
     concat (map (\<lambda>line. if strip line \<noteq> [] then prefix @ line else line)
       (splitlines_keepends text))"

text \<open>
  The code formatter is an external library. It enters every definition as the parameter
  \<open>black\<close>, a function from the code to \<open>Inr\<close> the formatted code, or to \<open>Inl\<close> the message
  of \<open>black.InvalidInput\<close>.
\<close>

type_synonym engine = "string \<Rightarrow> string + string"

definition run_black_format_str :: "engine \<Rightarrow> string \<Rightarrow> error + string" where
  "run_black_format_str black string =
     (case black string of
        Inl e \<Rightarrow> Inl (InvalidPython (''Got error:\<newline>```\<newline>'' @ e
                 @ ''\<newline>```\<newline>'' @ ''while formatting code with black.''))
      | Inr fmted \<Rightarrow> Inr fmted)"

definition flush_buffer :: "engine \<Rightarrow> bool \<Rightarrow> bool \<Rightarrow> formatter \<Rightarrow> error + formatter" where
  "flush_buffer black from_python final_flush self =
     (if length (buffer self) = 0 \<or> isspace (buffer self)
      then Inr (self\<lparr>result := result self @ buffer self, buffer := []\<rparr>)
      else if \<not> from_python then
        (let trailing_newline = endswith (buffer self) ''\<newline>\<newline>''
         in case run_black_format_str black (buffer self) of
              Inl e \<Rightarrow> Inl e
            | Inr formatted0 \<Rightarrow>
                (let formatted1 = (if self_target_indent self > 0
                                   then indent formatted0 (times TAB (self_target_indent self))
                                   else formatted0);
                     formatted = (if trailing_newline then formatted1 @ ''\<newline>''
                                  else formatted1)
                 in Inr ((add_newlines (self_target_indent self) formatted final_flush self)
                          \<lparr>buffer := []\<rparr>)))
      else Inr (self\<lparr>result := result self @ rstrip_chars TAB (buffer self), buffer := []\<rparr>))"

text \<open>
  \<open>process_keyword_context\<close> reads \<open>cur_indent\<close>, \<open>keyword_name\<close> and \<open>comment\<close> from
  \<open>self.context\<close>; they are arguments here.
\<close>

definition process_keyword_context :: "int \<Rightarrow> string \<Rightarrow> string \<Rightarrow> formatter \<Rightarrow> formatter" where
  "process_keyword_context cur_indent keyword_name comment self =
     (let s = add_newlines cur_indent [] False self;
          formatted = times TAB cur_indent @ keyword_name @ '':'' @ comment @ ''\<newline>''
      in s\<lparr>result := result s @ formatted\<rparr>)"

section \<open>The literal-aware indenter: \<open>string_format\<close>\<close>

text \<open>\<open>s.find(sub)\<close>: the index of the first occurrence, \<open>None\<close> for Python's \<open>-1\<close>.\<close>

fun find :: "string \<Rightarrow> string \<Rightarrow> nat option" where
  "find sub [] = (if sub = [] then Some 0 else None)"
| "find sub (c # cs) =
     (if startswith (c # cs) sub then Some 0 else map_option Suc (find sub cs))"

text \<open>\<open>s.split(sep)\<close> for a separator of one character.\<close>

fun split :: "char \<Rightarrow> string \<Rightarrow> string list" where
  "split sep [] = [[]]"
| "split sep (c # cs) =
     (if c = sep then [] # split sep cs
      else (case split sep cs of [] \<Rightarrow> [[c]] | l # ls \<Rightarrow> (c # l) # ls))"

text \<open>
  \<open>triple_quote_matcher\<close> is the regular expression
  \<^verbatim>\<open>("{3}.*?"{3})|('{3}.*?'{3})\<close> with \<open>re.DOTALL\<close>. One branch, tried at the start of \<open>s\<close>:
  the delimiter, the shortest text of any characters, the delimiter again.
\<close>

definition match_quoted :: "string \<Rightarrow> string \<Rightarrow> string option" where
  "match_quoted delim s =
     (if startswith s delim
      then (case find delim (drop (length delim) s) of
              None \<Rightarrow> None
            | Some k \<Rightarrow> Some (take (length delim + k + length delim) s))
      else None)"

text \<open>The whole pattern at the start of \<open>s\<close>: the first branch, then the second.\<close>

definition match_here :: "string \<Rightarrow> string option" where
  "match_here s =
     (case match_quoted [CHR 0x22, CHR 0x22, CHR 0x22] s of
        Some m \<Rightarrow> Some m
      | None \<Rightarrow> match_quoted [CHR 0x27, CHR 0x27, CHR 0x27] s)"

text \<open>
  The leftmost match in \<open>s\<close>: the text before it (\<open>string[pos : match.start()]\<close>), the match
  (\<open>string[match.start() : match.end()]\<close>) and the text after \<open>match.end()\<close>.
\<close>

fun search :: "string \<Rightarrow> (string \<times> string \<times> string) option" where
  "search [] = None"
| "search (c # cs) =
     (case match_here (c # cs) of
        Some m \<Rightarrow> Some ([], m, drop (length m) (c # cs))
      | None \<Rightarrow> (case search cs of
                   None \<Rightarrow> None
                 | Some (pre, m, post) \<Rightarrow> Some (c # pre, m, post)))"

text \<open>
  \<open>textwrap.dedent(text)\<close> of the standard library, in its regular-expression form. Lines
  are separated by LF only. Lines of blanks and tabs become empty; the margin is the longest
  common prefix of the leading blanks and tabs of the other non-empty lines; it is removed
  from every line that starts with it.
\<close>

definition is_blank :: "char \<Rightarrow> bool" where
  "is_blank c = (c = CHR '' '' \<or> c = CHR 0x09)"

text \<open>The loop \<open>for indent in indents\<close>; \<open>None\<close> is the initial \<open>margin = None\<close>.\<close>

fun find_margin :: "string option \<Rightarrow> string list \<Rightarrow> string option" where
  "find_margin margin [] = margin"
| "find_margin None (ind # indents) = find_margin (Some ind) indents"
| "find_margin (Some margin) (ind # indents) =
     (if startswith ind margin then find_margin (Some margin) indents
      else if startswith margin ind then find_margin (Some ind) indents
      else find_margin
             (Some (take (length (takeWhile (\<lambda>(x, y). x = y) (zip margin ind))) margin))
             indents)"

definition dedent :: "string \<Rightarrow> string" where
  "dedent text =
     (let lines = map (\<lambda>line. if list_all is_blank line then [] else line)
                    (split (CHR 0x0A) text);
          indents = map (takeWhile is_blank) (filter (\<lambda>line. line \<noteq> []) lines)
      in case find_margin None indents of
           None \<Rightarrow> join ''\<newline>'' lines
         | Some margin \<Rightarrow>
             if margin = [] then join ''\<newline>'' lines
             else join ''\<newline>''
                    (map (\<lambda>line. if startswith line margin then drop (length margin) line
                                 else line) lines))"

text \<open>The body of the loop over the matches: what is appended for one literal.\<close>

definition format_literal :: "string \<Rightarrow> int \<Rightarrow> string \<Rightarrow> string" where
  "format_literal used_indent target_indent literal =
     (let match_slice = replace literal [CHR 0x09] TAB
      in if count_list match_slice (CHR 0x0A) > 0 \<and> target_indent > 0 then
           (let dedented0 = replace match_slice [CHR 0x22, CHR 0x22, CHR 0x22] [];
                dedented = [CHR 0x22, CHR 0x22, CHR 0x22] @ dedent dedented0
                           @ [CHR 0x22, CHR 0x22, CHR 0x22]
            in indent dedented used_indent)
         else used_indent @ match_slice)"

text \<open>
  The loop \<open>for match in re.finditer(triple_quote_matcher, string)\<close> together with the
  statement after it. \<open>outside\<close> gives what is appended for the text between two matches
  and after the last one, \<open>literal\<close> what is appended for a match; the last argument is
  \<open>string[pos:]\<close>.
\<close>

function over_matches :: "(string \<Rightarrow> string) \<Rightarrow> (string \<Rightarrow> string) \<Rightarrow> string \<Rightarrow> string" where
  "over_matches outside literal s =
     (case search s of
        None \<Rightarrow> outside s
      | Some (pre, m, post) \<Rightarrow> outside pre @ literal m @ over_matches outside literal post)"
  by pat_completeness auto
termination
proof (relation "measure (\<lambda>(outside, literal, s). length s)")
  show "wf (measure (\<lambda>(outside, literal, s). length s))"
    by simp
next
  fix outside literal :: "string \<Rightarrow> string" and s x2 pre y m post
  assume found: "search s = Some x2" "(pre, y) = x2" "(m, post) = y"
  have quoted: "\<And>d t r. match_quoted d t = Some r \<Longrightarrow> d \<noteq> [] \<Longrightarrow> r \<noteq> [] \<and> length r \<le> length t"
    by (auto simp add: match_quoted_def startswith_def split: if_splits option.splits)
  have here: "\<And>t r. match_here t = Some r \<Longrightarrow> r \<noteq> [] \<and> length r \<le> length t"
    using quoted by (fastforce simp add: match_here_def split: option.splits)
  have "\<And>b r a. search s = Some (b, r, a) \<Longrightarrow> length a < length s"
  proof (induction s)
    case Nil
    then show ?case by simp
  next
    case (Cons c cs)
    show ?case
    proof (cases "match_here (c # cs)")
      case None
      then show ?thesis using Cons by (auto split: option.splits)
    next
      case (Some r')
      then show ?thesis using Cons.prems here [OF Some]
        by (cases r') auto
    qed
  qed
  then show "((outside, literal, post), (outside, literal, s))
      \<in> measure (\<lambda>(outside, literal, s). length s)"
    using found by auto
qed

declare over_matches.simps [simp del]

definition string_format :: "string \<Rightarrow> int \<Rightarrow> string" where
  "string_format string target_indent =
     (let used_indent = times TAB target_indent
      in over_matches (\<lambda>text. indent text used_indent)
           (format_literal used_indent target_indent) string)"

section \<open>Rendering parameters\<close>

text \<open>
  Modelled from the spec: the class \<open>Parameter\<close> of \<open>snakefmt.parser.syntax\<close>, which is not
  part of the sources at hand. A parameter is one value with an optional key name and its
  trailing comment lines; with a key, its text has the form \<open>key=value\<close>. \<open>line_nb\<close> is
  the text the error message starts with.
\<close>

record parameter =
  line_nb :: string
  key :: string
  val :: string
  comments :: "string list"

definition has_a_key :: "parameter \<Rightarrow> bool" where
  "has_a_key p = (length (key p) > 0)"

definition str :: "parameter \<Rightarrow> string" where
  "str p = (if has_a_key p then key p @ ''='' @ val p else val p)"

text \<open>
  Modelled from the spec: the classes of parameter groups, also of \<open>snakefmt.parser.syntax\<close>:
  a list of parameters, exactly one parameter in block style, exactly one parameter in
  inline style. The last is a subclass of the second.
\<close>

datatype syntax_class = ParamList | SingleParam | RuleInlineSingleParam

definition issubclass_SingleParam :: "syntax_class \<Rightarrow> bool" where
  "issubclass_SingleParam p_class = (p_class = SingleParam \<or> p_class = RuleInlineSingleParam)"

text \<open>
  A parameter group as \<open>format_params\<close> and \<open>process_keyword_param\<close> read it. \<open>syntax_indent\<close>
  is its attribute \<open>target_indent\<close>, one more than the depth of the keyword line.
\<close>

record parameter_syntax =
  p_class :: syntax_class
  keyword_name :: string
  comment :: string
  syntax_indent :: int
  all_params :: "parameter list"

text \<open>
  \<open>re.match("(.*?) = (.*)", val, re.DOTALL)\<close>: the two groups around the first
  occurrence of \<open>" = "\<close>, or \<open>None\<close>.
\<close>

definition match_equal :: "string \<Rightarrow> (string \<times> string) option" where
  "match_equal v =
     (case find '' = '' v of
        None \<Rightarrow> None
      | Some k \<Rightarrow> Some (take k v, drop (k + 3) v))"

text \<open>
  The \<open>try\<close> block of \<open>format_param\<close> with its \<open>except InvalidPython\<close> handler. Taking a group
  of a failed match is an \<open>AttributeError\<close>, which the handler does not catch.
\<close>

definition format_value :: "engine \<Rightarrow> parameter \<Rightarrow> int \<Rightarrow> string \<Rightarrow> error + string" where
  "format_value black parameter target_indent v =
     (case run_black_format_str black v of
        Inl e \<Rightarrow> Inr (if contains ''**'' v then replace v ''** '' ''**'' else v)
      | Inr v1 \<Rightarrow>
          (let v2 = string_format v1 target_indent
           in if has_a_key parameter
              then (case match_equal v2 of
                      None \<Rightarrow> Inl AttributeError
                    | Some (group1, group2) \<Rightarrow> Inr (group1 @ ''='' @ group2))
              else Inr v2))"

text \<open>
  \<open>ast.parse\<close> is the interpreter's own parser. It enters as the parameter \<open>ast_parse\<close>,
  true when the text parses and false when it raises \<open>SyntaxError\<close>.
\<close>

definition format_param ::
  "engine \<Rightarrow> (string \<Rightarrow> bool) \<Rightarrow> parameter \<Rightarrow> int \<Rightarrow> bool \<Rightarrow> bool \<Rightarrow> error + string" where
  "format_param black ast_parse parameter target_indent0 inline_formatting single_param =
     (let target_indent = (if inline_formatting then 0 else target_indent0);
          cmts = join (''\<newline>'' @ times TAB target_indent) (comments parameter);
          v = str parameter
      in if \<not> ast_parse (''param('' @ v @ '')'')
         then Inl (InvalidParameterSyntax (line_nb parameter @ v))
         else
           (let v0 = (if inline_formatting then replace v ''\<newline>'' [] else v)
            in case format_value black parameter target_indent v0 of
                 Inl e \<Rightarrow> Inl e
               | Inr v1 \<Rightarrow>
                   (let v2 = strip_chars ''\<newline>'' v1
                    in if single_param then Inr (v2 @ cmts @ ''\<newline>'')
                       else Inr (v2 @ '','' @ cmts @ ''\<newline>''))))"

text \<open>The loop \<open>for elem in parameters.all_params\<close>, stopping at the first error.\<close>

fun format_each ::
  "engine \<Rightarrow> (string \<Rightarrow> bool) \<Rightarrow> int \<Rightarrow> bool \<Rightarrow> bool \<Rightarrow> string \<Rightarrow> parameter list
     \<Rightarrow> error + string" where
  "format_each black ast_parse target_indent inline_fmting single_param res [] = Inr res"
| "format_each black ast_parse target_indent inline_fmting single_param res (elem # rest) =
     (case format_param black ast_parse elem target_indent inline_fmting single_param of
        Inl e \<Rightarrow> Inl e
      | Inr r \<Rightarrow>
          format_each black ast_parse target_indent inline_fmting single_param (res @ r) rest)"

definition format_params ::
  "engine \<Rightarrow> (string \<Rightarrow> bool) \<Rightarrow> parameter_syntax \<Rightarrow> bool \<Rightarrow> error + string" where
  "format_params black ast_parse parameters in_rule =
     (let target_indent = syntax_indent parameters;
          used_indent = times TAB (target_indent - 1);
          res0 = used_indent @ keyword_name parameters @ '':'' @ comment parameters;
          single_param = issubclass_SingleParam (p_class parameters);
          inline_fmting = (if in_rule \<and> p_class parameters \<noteq> RuleInlineSingleParam
                           then False else single_param);
          res1 = (if inline_fmting then res0 @ '' '' else res0 @ ''\<newline>'')
      in format_each black ast_parse target_indent inline_fmting single_param res1
           (all_params parameters))"

text \<open>
  \<open>process_keyword_param\<close>; \<open>in_rule\<close> is the outcome of its \<open>issubclass\<close> test on the
  vocabulary the group sits in.
\<close>

definition process_keyword_param ::
  "engine \<Rightarrow> (string \<Rightarrow> bool) \<Rightarrow> parameter_syntax \<Rightarrow> bool \<Rightarrow> formatter
     \<Rightarrow> error + formatter" where
  "process_keyword_param black ast_parse param_context in_rule self =
     (let s = add_newlines (syntax_indent param_context - 1) [] False self
      in case format_params black ast_parse param_context in_rule of
           Inl e \<Rightarrow> Inl e
         | Inr formatted \<Rightarrow> Inr (s\<lparr>result := result s @ formatted\<rparr>))"

section \<open>Notions used in the statements\<close>

text \<open>A comment line, as the loop of \<open>add_newlines\<close> tests it: not empty, first character \<open>#\<close>.\<close>

definition is_comment_line :: "string \<Rightarrow> bool" where
  "is_comment_line line = (line \<noteq> [] \<and> hd line = CHR ''#'')"

text \<open>The longest run of comment lines at the end of a block, and the lines before it.\<close>

definition trailing_comments :: "string list \<Rightarrow> string list" where
  "trailing_comments ls = rev (takeWhile is_comment_line (rev ls))"

definition leading_lines :: "string list \<Rightarrow> string list" where
  "leading_lines ls = rev (dropWhile is_comment_line (rev ls))"

text \<open>
  The text a top-level commit writes for the lines before the trailing comment run, and the
  text of that run as it is stored in \<open>lagging_comments\<close>.
\<close>

definition block_body :: "string \<Rightarrow> string" where
  "block_body f =
     (let ls = leading_lines (splitlines f)
      in if ls = [] then [] else rstrip (join ''\<newline>'' ls) @ ''\<newline>'')"

definition block_comments :: "string \<Rightarrow> string" where
  "block_comments f =
     (let cs = trailing_comments (splitlines f)
      in if cs = [] then [] else join ''\<newline>'' cs @ ''\<newline>'')"

text \<open>
  The emission events, as the calls they make. \<open>Code\<close> is the commit of a formatted
  block, what \<open>flush_buffer\<close> does with formatted code: \<open>add_newlines\<close> at the buffer's
  indent. \<open>Keyword\<close> is \<open>process_keyword_context\<close>. \<open>Params\<close> is what
  \<open>process_keyword_param\<close> does with the rendered group: \<open>add_newlines\<close> at the keyword's
  indent with no text, then the group appended. \<open>Verbatim\<close> is text appended as it is,
  what \<open>flush_buffer\<close> does with a blank buffer and with text that is not sent to the code
  formatter. \<open>emit_all\<close> runs a sequence of events in order.
\<close>

datatype event =
  Code int string bool
| Keyword int string string
| Params int string
| Verbatim string

fun emit :: "event \<Rightarrow> formatter \<Rightarrow> formatter" where
  "emit (Code cur_indent formatted_string final_flush) self =
     add_newlines cur_indent formatted_string final_flush self"
| "emit (Keyword cur_indent name cmt) self = process_keyword_context cur_indent name cmt self"
| "emit (Params cur_indent rendered) self =
     (let s = add_newlines cur_indent [] False self in s\<lparr>result := result s @ rendered\<rparr>)"
| "emit (Verbatim t) self = self\<lparr>result := result self @ t\<rparr>"

fun emit_all :: "event list \<Rightarrow> formatter \<Rightarrow> formatter" where
  "emit_all [] self = self"
| "emit_all (e # es) self = emit_all es (emit e self)"

text \<open>
  An event is at top level when it calls \<open>add_newlines\<close> with indent 0. \<open>own_text\<close> is the
  text an event writes of its own: at top level what follows the separator and the held
  comments. \<open>keeps_first\<close> holds of the events that leave \<open>first\<close> as it is: verbatim text
  and the top-level commit of a block of comment lines only.
\<close>

fun is_top :: "event \<Rightarrow> bool" where
  "is_top (Code cur_indent formatted_string final_flush) = (cur_indent = 0)"
| "is_top (Keyword cur_indent name cmt) = (cur_indent = 0)"
| "is_top (Params cur_indent rendered) = (cur_indent = 0)"
| "is_top (Verbatim t) = False"

fun own_text :: "event \<Rightarrow> string" where
  "own_text (Code cur_indent formatted_string final_flush) =
     (if cur_indent = 0
      then block_body formatted_string
           @ (if final_flush then block_comments formatted_string else [])
      else formatted_string)"
| "own_text (Keyword cur_indent name cmt) = times TAB cur_indent @ name @ '':'' @ cmt @ ''\<newline>''"
| "own_text (Params cur_indent rendered) = rendered"
| "own_text (Verbatim t) = t"

fun keeps_first :: "event \<Rightarrow> bool" where
  "keeps_first (Code cur_indent formatted_string final_flush) =
     (cur_indent = 0 \<and> splitlines formatted_string \<noteq> []
      \<and> list_all is_comment_line (splitlines formatted_string))"
| "keeps_first (Keyword cur_indent name cmt) = False"
| "keeps_first (Params cur_indent rendered) = False"
| "keeps_first (Verbatim t) = True"

text \<open>A text that ends in a line which is not blank at its end, closed by one LF.\<close>

definition line_closed :: "string \<Rightarrow> bool" where
  "line_closed t = (2 \<le> length t \<and> last t = CHR 0x0A \<and> \<not> is_space (last (butlast t)))"

text \<open>
  The events the separation of blocks is stated for, given the value of \<open>first\<close> when the
  event arrives. A top-level event writes a text that starts with a character which is no
  white space and that is \<open>line_closed\<close>; a commit of comment lines only is also admitted
  while \<open>first\<close> is true. A nested commit writes a \<open>line_closed\<close> text. Verbatim text is
  free while \<open>first\<close> is true, and later empty or \<open>line_closed\<close>. \<open>well_formed\<close> asks this of
  every event of a sequence, in the state in which it arrives.
\<close>

definition ok_event :: "bool \<Rightarrow> event \<Rightarrow> bool" where
  "ok_event is_first e =
     (if is_top e
      then (is_first \<and> keeps_first e)
           \<or> (own_text e \<noteq> [] \<and> \<not> is_space (hd (own_text e)) \<and> line_closed (own_text e))
      else if keeps_first e then is_first \<or> own_text e = [] \<or> line_closed (own_text e)
      else line_closed (own_text e))"

fun well_formed :: "formatter \<Rightarrow> event list \<Rightarrow> bool" where
  "well_formed self [] = True"
| "well_formed self (e # es) = (ok_event (first self) e \<and> well_formed (emit e self) es)"

text \<open>
  The state between two events: once \<open>first\<close> is false the output is \<open>line_closed\<close>, and
  held comments start with the comment marker.
\<close>

definition settled :: "formatter \<Rightarrow> bool" where
  "settled self =
     ((first self \<or> line_closed (result self))
      \<and> (lagging_comments self = [] \<or> hd (lagging_comments self) = CHR ''#''))"

text \<open>
  A stand-in for the code formatter on code that is already in its canonical form: such code
  comes back unchanged, ending in one line break.
\<close>

definition black_canonical :: engine where
  "black_canonical code = Inr (if endswith code ''\<newline>'' then code else code @ ''\<newline>'')"

text \<open>
  A stand-in for the code formatter on code it cannot parse, such as an expression that is
  no statement of its own: it reports the failure.
\<close>

definition black_rejecting :: engine where
  "black_rejecting code = Inl (''Cannot parse: '' @ code)"

text \<open>
  A stand-in for \<open>ast.parse\<close>: it accepts the text whose round brackets balance. The
  interpreter's parser rejects what this one rejects as long as no bracket stands inside
  a string literal or a comment.
\<close>

fun bracket_depth :: "nat \<Rightarrow> string \<Rightarrow> bool" where
  "bracket_depth n [] = (n = 0)"
| "bracket_depth n (c # cs) =
     (if c = CHR ''('' then bracket_depth (Suc n) cs
      else if c = CHR '')'' then (n > 0 \<and> bracket_depth (n - 1) cs)
      else bracket_depth n cs)"

definition brackets_balance :: "string \<Rightarrow> bool" where
  "brackets_balance s = bracket_depth 0 s"

text \<open>The header of a parameter group, up to and without the character after the colon.\<close>

definition header :: "parameter_syntax \<Rightarrow> string" where
  "header parameters =
     times TAB (syntax_indent parameters - 1) @ keyword_name parameters @ '':''
     @ comment parameters"

text \<open>
  Formatted code of one plain line: no line break inside, not white space only, no
  triple-delimited literal, closed by one LF.
\<close>

definition plain_line :: "string \<Rightarrow> bool" where
  "plain_line w =
     ((\<forall>c \<in> set w. \<not> is_linebreak c) \<and> \<not> list_all is_space w
      \<and> search (w @ ''\<newline>'') = None)"

text \<open>
  The parameter group of the spec's example: keyword \<open>input\<close>, one parameter \<open>"x.txt"\<close>,
  the keyword line at depth 1, so that the group's \<open>target_indent\<close> is 2.
\<close>

definition input_group :: "syntax_class \<Rightarrow> parameter_syntax" where
  "input_group k =
     \<lparr>p_class = k, keyword_name = ''input'', comment = [], syntax_indent = 2,
      all_params = [\<lparr>line_nb = ''L2: '', key = [], val = ''\"x.txt\"'', comments = []\<rparr>]\<rparr>"



text \<open>
  What dedenting by a margin of \<open>k\<close> characters does to one line: a line of blanks and
  tabs only becomes empty, any other line loses its first \<open>k\<close> characters.
\<close>

definition dedent_line :: "nat \<Rightarrow> string \<Rightarrow> string" where
  "dedent_line k line = (if list_all is_blank line then [] else drop k line)"

section \<open>Properties of the commit policy\<close>

lemma count_comment_lines_takeWhile:
  "count_comment_lines xs = length (takeWhile is_comment_line xs)"
  by (induction xs) (simp_all add: is_comment_line_def)

lemma count_comment_lines_le: "count_comment_lines xs \<le> length xs"
  by (simp add: count_comment_lines_takeWhile length_takeWhile_le)

lemma count_comment_lines_all:
  "(count_comment_lines xs = length xs) = (\<forall>l \<in> set xs. is_comment_line l)"
  unfolding count_comment_lines_takeWhile
  by (metis takeWhile_eq_all_conv takeWhile_eq_take nle_le take_all)

lemma first_add_newlines:
  "first (add_newlines ci f fin s) =
     (first s \<and> ci = 0 \<and> splitlines f \<noteq> [] \<and> (\<forall>l \<in> set (splitlines f). is_comment_line l))"
proof -
  have le: "count_comment_lines (rev (splitlines f)) \<le> length (splitlines f)"
    using count_comment_lines_le [of "rev (splitlines f)"] by simp
  have all: "(count_comment_lines (rev (splitlines f)) = length (splitlines f))
      = (\<forall>l \<in> set (splitlines f). is_comment_line l)"
    using count_comment_lines_all [of "rev (splitlines f)"] by simp
  have z: "(length (splitlines f) - count_comment_lines (rev (splitlines f)) = 0)
      = (\<forall>l \<in> set (splitlines f). is_comment_line l)"
    using le all by auto
  show ?thesis
    using z by (auto simp add: add_newlines_def clear_first_def Let_def)
qed

lemma take_comment_break:
  "take (length ls - count_comment_lines (rev ls)) ls = leading_lines ls"
  by (simp add: leading_lines_def count_comment_lines_takeWhile dropWhile_eq_drop rev_drop)

lemma drop_comment_break:
  "drop (length ls - count_comment_lines (rev ls)) ls = trailing_comments ls"
proof -
  let ?k = "length (takeWhile is_comment_line (rev ls))"
  have "takeWhile is_comment_line (rev ls) = take ?k (rev ls)"
    by (rule takeWhile_eq_take)
  then have "trailing_comments ls = rev (take ?k (rev ls))"
    by (simp only: trailing_comments_def)
  also have "\<dots> = drop (length ls - ?k) ls"
    by (simp add: rev_take)
  finally show ?thesis
    by (simp only: count_comment_lines_takeWhile)
qed

lemma leading_lines_Nil:
  "(leading_lines ls = []) = (length ls - count_comment_lines (rev ls) = 0)"
  using take_comment_break [of ls] count_comment_lines_le [of "rev ls"]
  by (metis length_rev take_eq_Nil length_0_conv length_take min.absorb2 diff_le_self take0
      list.size(3))

lemma trailing_comments_Nil:
  "(trailing_comments ls = []) = (count_comment_lines (rev ls) = 0)"
  by (simp add: trailing_comments_def count_comment_lines_takeWhile)

lemma leading_lines_all:
  "count_comment_lines (rev ls) = 0 \<Longrightarrow> leading_lines ls = ls"
  using take_comment_break [of ls] by simp

lemma trailing_comments_all:
  "\<not> count_comment_lines (rev ls) < length ls \<Longrightarrow> trailing_comments ls = ls"
  using drop_comment_break [of ls] by simp

lemma result_add_newlines_top:
  "result (add_newlines 0 f fin s) =
     result s @ (if first s then [] else ''\<newline>\<newline>'') @ lagging_comments s
       @ block_body f @ (if fin then block_comments f else [])"
proof (cases "splitlines f = []")
  case True
  then show ?thesis
    by (simp add: add_newlines_def clear_first_def Let_def block_body_def block_comments_def
        leading_lines_def trailing_comments_def)
next
  case False
  then show ?thesis
    using leading_lines_Nil [of "splitlines f"] trailing_comments_Nil [of "splitlines f"]
    by (simp add: add_newlines_def clear_first_def Let_def block_body_def block_comments_def
        take_comment_break drop_comment_break leading_lines_all trailing_comments_all)
qed

lemma lagging_add_newlines_top:
  "lagging_comments (add_newlines 0 f fin s) = block_comments f"
proof (cases "splitlines f = []")
  case True
  then show ?thesis
    by (simp add: add_newlines_def clear_first_def Let_def block_comments_def
        trailing_comments_def)
next
  case False
  then show ?thesis
    using trailing_comments_Nil [of "splitlines f"]
    by (simp add: add_newlines_def clear_first_def Let_def block_comments_def
        drop_comment_break trailing_comments_all)
qed

lemma is_linebreak_CR_LF: "is_linebreak (CHR 0x0D)" "is_linebreak (CHR 0x0A)"
  by (simp_all add: is_linebreak_def)

lemma add_newlines_nested:
  assumes "cur_indent \<noteq> 0"
  shows "result (add_newlines cur_indent f fin s) = result s @ f"
    and "lagging_comments (add_newlines cur_indent f fin s) = lagging_comments s"
  using assms by (simp_all add: add_newlines_def clear_first_def)

lemma block_of_nothing: "block_body [] = []" "block_comments [] = []"
  by (simp_all add: block_body_def block_comments_def leading_lines_def
      trailing_comments_def)

lemma times_zero: "times s 0 = []"
  by (simp add: times_def)

lemma result_emit_top:
  assumes "is_top e"
  shows "result (emit e s) =
     result s @ (if first s then [] else ''\<newline>\<newline>'') @ lagging_comments s @ own_text e"
  using assms
  by (cases e)
    (simp_all add: process_keyword_context_def Let_def result_add_newlines_top
      block_of_nothing times_zero)

lemma result_emit_nested:
  assumes "\<not> is_top e"
  shows "result (emit e s) = result s @ own_text e"
  using assms
  by (cases e) (simp_all add: process_keyword_context_def Let_def add_newlines_nested)

lemma first_emit: "first (emit e s) = (first s \<and> keeps_first e)"
  by (cases e)
    (auto simp add: process_keyword_context_def Let_def first_add_newlines list_all_iff)

lemma join_hd: "x \<noteq> [] \<Longrightarrow> hd (join sep (x # xs) @ t) = hd x"
  by (cases xs) simp_all

lemma block_comments_marker: "block_comments f = [] \<or> hd (block_comments f) = CHR ''#''"
proof (cases "trailing_comments (splitlines f)")
  case Nil
  then show ?thesis by (simp add: block_comments_def)
next
  case (Cons c cs)
  have "c \<in> set (c # cs)"
    by simp
  then have "c \<in> set (trailing_comments (splitlines f))"
    by (simp only: Cons)
  then have "c \<in> set (rev (takeWhile is_comment_line (rev (splitlines f))))"
    by (simp only: trailing_comments_def)
  then have "c \<in> set (takeWhile is_comment_line (rev (splitlines f)))"
    by (simp only: set_rev)
  then have "c \<in> set (rev (splitlines f)) \<and> is_comment_line c"
    by (rule set_takeWhileD)
  then have "is_comment_line c"
    by (rule conjunct2)
  then have c: "c \<noteq> []" "hd c = CHR ''#''"
    unfolding is_comment_line_def by blast+
  have "block_comments f = join ''\<newline>'' (c # cs) @ ''\<newline>''"
    unfolding block_comments_def Let_def Cons by simp
  then have "hd (block_comments f) = hd c"
    using join_hd [OF c(1)] by simp
  then show ?thesis using c(2) by simp
qed

lemma lagging_emit:
  assumes "lagging_comments s = [] \<or> hd (lagging_comments s) = CHR ''#''"
  shows "lagging_comments (emit e s) = [] \<or> hd (lagging_comments (emit e s)) = CHR ''#''"
proof (cases e)
  case (Code k f fin)
  show ?thesis
  proof (cases "k = 0")
    case True
    then have "lagging_comments (emit e s) = block_comments f"
      using Code by (simp add: lagging_add_newlines_top)
    then show ?thesis
      using block_comments_marker [of f] by simp
  next
    case False
    then have "lagging_comments (emit e s) = lagging_comments s"
      using Code by (simp add: add_newlines_nested)
    then show ?thesis using assms by simp
  qed
next
  case (Keyword k name cmt)
  show ?thesis
  proof (cases "k = 0")
    case True
    then have "lagging_comments (emit e s) = []"
      using Keyword
      by (simp add: process_keyword_context_def Let_def lagging_add_newlines_top
          block_of_nothing)
    then show ?thesis by simp
  next
    case False
    then have "lagging_comments (emit e s) = lagging_comments s"
      using Keyword by (simp add: process_keyword_context_def Let_def add_newlines_nested)
    then show ?thesis using assms by simp
  qed
next
  case (Params k rendered)
  show ?thesis
  proof (cases "k = 0")
    case True
    then have "lagging_comments (emit e s) = []"
      using Params by (simp add: Let_def lagging_add_newlines_top block_of_nothing)
    then show ?thesis by simp
  next
    case False
    then have "lagging_comments (emit e s) = lagging_comments s"
      using Params by (simp add: Let_def add_newlines_nested)
    then show ?thesis using assms by simp
  qed
next
  case (Verbatim t)
  then show ?thesis using assms by simp
qed

lemma line_closed_append: "line_closed t \<Longrightarrow> line_closed (r @ t)"
proof -
  assume c: "line_closed t"
  then have len: "2 \<le> length t" by (simp add: line_closed_def)
  then have ne: "t \<noteq> []"
    by auto
  from len have "length (butlast t) \<noteq> 0"
    by simp
  then have bne: "butlast t \<noteq> []"
    by (simp only: length_0_conv) simp
  have "last (r @ t) = last t"
    using ne by simp
  moreover have "last (butlast (r @ t)) = last (butlast t)"
    using ne bne by (simp add: butlast_append)
  ultimately show ?thesis
    using c len by (simp add: line_closed_def)
qed

lemma settled_emit:
  assumes "ok_event (first s) e" and "settled s"
  shows "settled (emit e s)"
proof -
  have held: "lagging_comments (emit e s) = [] \<or> hd (lagging_comments (emit e s)) = CHR ''#''"
    using assms(2) lagging_emit by (simp add: settled_def)
  have "first (emit e s) \<or> line_closed (result (emit e s))"
  proof (cases "first s \<and> keeps_first e")
    case True
    then show ?thesis by (simp add: first_emit)
  next
    case False
    show ?thesis
    proof (cases "is_top e")
      case True
      then have "line_closed (own_text e)"
        using assms(1) False by (auto simp add: ok_event_def)
      then show ?thesis
        using line_closed_append [of "own_text e"] True
        by (simp only: result_emit_top append_assoc [symmetric]) simp
    next
      case nested: False
      show ?thesis
      proof (cases "own_text e = []")
        case True
        then have "keeps_first e" and "\<not> first s"
          using assms(1) nested False by (auto simp add: ok_event_def line_closed_def split: if_splits)
        then show ?thesis
          using assms(2) nested True by (simp add: settled_def result_emit_nested)
      next
        case ne: False
        have "line_closed (own_text e)"
          using assms(1) nested False ne by (auto simp add: ok_event_def split: if_splits)
        then show ?thesis
          using line_closed_append [of "own_text e" "result s"] nested
          by (simp add: result_emit_nested)
      qed
    qed
  qed
  then show ?thesis
    using held by (simp add: settled_def)
qed

lemma settled_emit_all:
  "well_formed s es \<Longrightarrow> settled s \<Longrightarrow> settled (emit_all es s)"
  by (induction es arbitrary: s) (simp_all add: settled_emit)

lemma well_formed_append:
  "well_formed s (pre @ es) = (well_formed s pre \<and> well_formed (emit_all pre s) es)"
  by (induction pre arbitrary: s) simp_all

lemma marker_no_space: "\<not> is_space (CHR ''#'')"
  by (simp add: is_space_def)

text \<open>Every call of the three emitting methods that returns is one of the events.\<close>

lemma methods_are_events:
  "process_keyword_context cur_indent name cmt self = emit (Keyword cur_indent name cmt) self"
  "process_keyword_param black ast_parse params in_rule self = Inr self' \<Longrightarrow>
     \<exists>rendered. format_params black ast_parse params in_rule = Inr rendered
       \<and> self' = emit (Params (syntax_indent params - 1) rendered) self"
  "flush_buffer black from_python final_flush self = Inr self' \<Longrightarrow>
     \<exists>t. self' = (emit (Verbatim t) self)\<lparr>buffer := []\<rparr>
        \<or> self' = (emit (Code (self_target_indent self) t final_flush) self)\<lparr>buffer := []\<rparr>"
proof -
  show "process_keyword_context cur_indent name cmt self = emit (Keyword cur_indent name cmt) self"
    by simp
  show "\<exists>rendered. format_params black ast_parse params in_rule = Inr rendered
       \<and> self' = emit (Params (syntax_indent params - 1) rendered) self"
    if "process_keyword_param black ast_parse params in_rule self = Inr self'"
    using that by (auto simp add: process_keyword_param_def Let_def split: sum.splits)
  show "\<exists>t. self' = (emit (Verbatim t) self)\<lparr>buffer := []\<rparr>
        \<or> self' = (emit (Code (self_target_indent self) t final_flush) self)\<lparr>buffer := []\<rparr>"
    if "flush_buffer black from_python final_flush self = Inr self'"
    using that
    by (auto simp add: flush_buffer_def Let_def split: if_splits sum.splits)
qed


section \<open>Claims about the commit policy\<close>

text \<open>
  C6, as amended. \<open>first\<close> starts true. After any call of \<open>add_newlines\<close> it is true exactly
  when it was true before and the call was a top-level commit (indent 0) of a block that has
  at least one line and only comment lines. So it becomes false, for good, at the first
  call that is not such a commit: a commit at non-zero indent and a top-level commit of
  the empty text clear it too.
\<close>

theorem first_flag_transition:
  "first init \<and>
   first (add_newlines cur_indent formatted_string final_flush self) =
     (first self \<and> cur_indent = 0 \<and> splitlines formatted_string \<noteq> []
      \<and> (\<forall>line \<in> set (splitlines formatted_string). is_comment_line line))"
  by (simp add: first_add_newlines) (simp add: init_def)

theorem first_flag_transition_witness:
  "first (add_newlines 0 ''# c\<newline>'' False init)
   \<and> \<not> first (add_newlines 0 ''x = 1\<newline>'' False init)
   \<and> \<not> first (add_newlines 0 ''# c\<newline>'' False (add_newlines 0 ''x = 1\<newline>'' False init))"
  using first_flag_transition [of 0 "''# c\<newline>''" False init]
    first_flag_transition [of 0 "''x = 1\<newline>''" False init]
    first_flag_transition [of 0 "''# c\<newline>''" False "add_newlines 0 ''x = 1\<newline>'' False init"]
  by (simp add: is_comment_line_def is_linebreak_def)

text \<open>
  C6 as stated fails: a commit at indent 1 made while \<open>first\<close> is true clears the flag.
\<close>

theorem first_flag_nonzero_indent_counterexample:
  "first init \<and> \<not> first (add_newlines 1 ''x = 1\<newline>'' False init)"
  by (simp add: init_def add_newlines_def clear_first_def)

text \<open>
  C1, as amended. Take any sequence of emission events that is \<open>well_formed\<close>, starting in
  a \<open>settled\<close> state such as the initial one, and any top-level event in it. The event
  appends to the output, in this order: two line breaks if \<open>first\<close> is false, the held
  comments, its own text. If \<open>first\<close> is false, the output before it ends in a line that
  is not blank at its end, closed by one line break, and what follows the two line breaks
  starts with a character that is no white space. So exactly two blank lines stand between
  the text before a top-level block and the block, and an event that arrives while \<open>first\<close>
  is true has nothing written before its block.
\<close>

theorem top_level_separation:
  assumes "well_formed s (pre @ e # post)" and "settled s" and "is_top e"
  shows "result (emit e (emit_all pre s)) =
           result (emit_all pre s)
             @ (if first (emit_all pre s) then [] else ''\<newline>\<newline>'')
             @ lagging_comments (emit_all pre s) @ own_text e
         \<and> (first (emit_all pre s)
             \<or> (line_closed (result (emit_all pre s))
                \<and> lagging_comments (emit_all pre s) @ own_text e \<noteq> []
                \<and> \<not> is_space (hd (lagging_comments (emit_all pre s) @ own_text e))))"
proof -
  let ?s = "emit_all pre s"
  from assms(1) have pre: "well_formed s pre" and ok: "ok_event (first ?s) e"
    by (simp_all add: well_formed_append)
  have st: "settled ?s"
    using pre assms(2) by (rule settled_emit_all)
  have r: "result (emit e ?s) =
      result ?s @ (if first ?s then [] else ''\<newline>\<newline>'') @ lagging_comments ?s @ own_text e"
    using assms(3) by (rule result_emit_top)
  have "line_closed (result ?s) \<and> lagging_comments ?s @ own_text e \<noteq> []
      \<and> \<not> is_space (hd (lagging_comments ?s @ own_text e))" if nf: "\<not> first ?s"
  proof -
    from ok nf assms(3) have own: "own_text e \<noteq> []" "\<not> is_space (hd (own_text e))"
      by (simp_all add: ok_event_def)
    from st nf have closed: "line_closed (result ?s)"
      and held: "lagging_comments ?s = [] \<or> hd (lagging_comments ?s) = CHR ''#''"
      by (simp_all add: settled_def)
    have "\<not> is_space (hd (lagging_comments ?s @ own_text e))"
      using held own marker_no_space by (cases "lagging_comments ?s") auto
    then show ?thesis using closed own by simp
  qed
  then show ?thesis using r by blast
qed

theorem top_level_separation_witness:
  "well_formed init
     [Keyword 0 ''rule a'' [], Params 1 ''    input:\<newline>        \"x.txt\",\<newline>'',
      Code 0 ''x = 1\<newline># c\<newline>'' False, Keyword 0 ''rule b'' []]
   \<and> settled init \<and> is_top (Keyword 0 ''rule b'' [])
   \<and> result (emit_all
        [Keyword 0 ''rule a'' [], Params 1 ''    input:\<newline>        \"x.txt\",\<newline>'',
         Code 0 ''x = 1\<newline># c\<newline>'' False, Keyword 0 ''rule b'' []] init)
     = ''rule a:\<newline>    input:\<newline>        \"x.txt\",\<newline>\<newline>\<newline>x = 1\<newline>\<newline>\<newline># c\<newline>rule b:\<newline>''"
proof -
  let ?e1 = "Keyword 0 ''rule a'' []"
  let ?e2 = "Params 1 ''    input:\<newline>        \"x.txt\",\<newline>''"
  let ?e3 = "Code 0 ''x = 1\<newline># c\<newline>'' False"
  let ?e4 = "Keyword 0 ''rule b'' []"
  let ?s1 = "\<lparr>result = ''rule a:\<newline>'', lagging_comments = [], first = False,
      buffer = [], self_target_indent = 0\<rparr>"
  let ?s2 = "\<lparr>result = ''rule a:\<newline>    input:\<newline>        \"x.txt\",\<newline>'',
      lagging_comments = [], first = False, buffer = [], self_target_indent = 0\<rparr>"
  let ?s3 = "\<lparr>result = ''rule a:\<newline>    input:\<newline>        \"x.txt\",\<newline>\<newline>\<newline>x = 1\<newline>'',
      lagging_comments = ''# c\<newline>'', first = False, buffer = [], self_target_indent = 0\<rparr>"
  have s1: "emit ?e1 init = ?s1"
    by (simp add: init_def process_keyword_context_def add_newlines_def clear_first_def
        times_def)
  have s2: "emit ?e2 ?s1 = ?s2"
    by (simp add: add_newlines_def clear_first_def)
  have s3: "emit ?e3 ?s2 = ?s3"
    by (simp add: add_newlines_def clear_first_def rstrip_def is_space_def is_linebreak_def)
  have before: "emit_all [?e1, ?e2, ?e3] init = ?s3"
    by (simp only: emit_all.simps s1 s2 s3)
  have ok1: "ok_event (first init) ?e1"
    by (simp add: ok_event_def line_closed_def times_def is_space_def)
  have ok2: "ok_event (first ?s1) ?e2"
    by (simp add: ok_event_def line_closed_def is_space_def)
  have ok3: "ok_event (first ?s2) ?e3"
    by (simp add: ok_event_def line_closed_def is_space_def is_linebreak_def block_body_def
        leading_lines_def is_comment_line_def rstrip_def)
  have ok4: "ok_event (first ?s3) ?e4"
    by (simp add: ok_event_def line_closed_def times_def is_space_def)
  have wf: "well_formed init ([?e1, ?e2, ?e3] @ ?e4 # [])"
    using ok1 ok2 ok3 ok4 by (simp only: append.simps well_formed.simps s1 s2 s3)
  have st: "settled init"
    by (simp add: settled_def init_def)
  have top: "is_top ?e4"
    by simp
  have "result (emit ?e4 (emit_all [?e1, ?e2, ?e3] init)) =
      result ?s3 @ ''\<newline>\<newline>'' @ lagging_comments ?s3 @ own_text ?e4"
    using top_level_separation [OF wf st top] by (simp only: before) simp
  then have "result (emit_all [?e1, ?e2, ?e3, ?e4] init) =
      ''rule a:\<newline>    input:\<newline>        \"x.txt\",\<newline>\<newline>\<newline>x = 1\<newline>\<newline>\<newline># c\<newline>rule b:\<newline>''"
    by (simp add: before s1 s2 s3 times_def)
  then show ?thesis
    using wf st by simp
qed


text \<open>
  C1 as stated fails: two keyword headers emitted at top level are three line breaks apart,
  which is two blank lines, not one.
\<close>

theorem one_blank_line_counterexample:
  "result (process_keyword_context 0 ''rule b'' []
             (process_keyword_context 0 ''rule a'' [] init))
     = ''rule a:\<newline>\<newline>\<newline>rule b:\<newline>''
   \<and> splitlines ''rule a:\<newline>\<newline>\<newline>rule b:\<newline>'' = [''rule a:'', [], [], ''rule b:'']"
  by (simp add: process_keyword_context_def add_newlines_def clear_first_def init_def
      times_def is_linebreak_def)

text \<open>
  What \<open>well_formed\<close> leaves out at top level: a commit of comment lines only, made after
  \<open>first\<close> was cleared. It writes the two line breaks and holds all its lines, so the next
  top-level block writes two more and stands four blank lines below the text before.
\<close>

lemma comment_only_commit_gap:
  "result (emit_all [Keyword 0 ''rule a'' [], Code 0 ''# c\<newline>'' False,
                     Keyword 0 ''rule b'' []] init)
     = ''rule a:\<newline>\<newline>\<newline>\<newline>\<newline># c\<newline>rule b:\<newline>''
   \<and> \<not> well_formed init [Keyword 0 ''rule a'' [], Code 0 ''# c\<newline>'' False,
                           Keyword 0 ''rule b'' []]"
proof -
  let ?s1 = "\<lparr>result = ''rule a:\<newline>'', lagging_comments = [], first = False,
      buffer = [], self_target_indent = 0\<rparr>"
  let ?s2 = "\<lparr>result = ''rule a:\<newline>\<newline>\<newline>'', lagging_comments = ''# c\<newline>'',
      first = False, buffer = [], self_target_indent = 0\<rparr>"
  have s1: "emit (Keyword 0 ''rule a'' []) init = ?s1"
    by (simp add: init_def process_keyword_context_def add_newlines_def clear_first_def
        times_def)
  have s2: "emit (Code 0 ''# c\<newline>'' False) ?s1 = ?s2"
    by (simp add: add_newlines_def clear_first_def rstrip_def is_space_def is_linebreak_def)
  have s3: "result (emit (Keyword 0 ''rule b'' []) ?s2)
      = ''rule a:\<newline>\<newline>\<newline>\<newline>\<newline># c\<newline>rule b:\<newline>''"
    by (simp add: process_keyword_context_def add_newlines_def clear_first_def times_def)
  have "\<not> ok_event (first ?s1) (Code 0 ''# c\<newline>'' False)"
    by (simp add: ok_event_def block_body_def leading_lines_def is_comment_line_def
        is_linebreak_def rstrip_def)
  then show ?thesis
    by (simp only: emit_all.simps well_formed.simps s1 s2 s3) simp
qed

text \<open>
  C4, as amended. A top-level commit stores the longest run of comment lines at the end of
  the block as the new \<open>lagging_comments\<close>. To the output it appends, in this order: the
  two line breaks if \<open>first\<close> is false, the comments held before, the lines before the run,
  and, on the final flush only, the run itself. So after a commit that is not final, the
  next top-level commit writes the run after its separator and right before the next
  block's lines.
\<close>

theorem comment_run_attachment:
  "lagging_comments (add_newlines 0 f final_flush s) = block_comments f
   \<and> result (add_newlines 0 f final_flush s) =
       result s @ (if first s then [] else ''\<newline>\<newline>'') @ lagging_comments s
         @ block_body f @ (if final_flush then block_comments f else [])
   \<and> result (add_newlines 0 g final_flush (add_newlines 0 f False s)) =
       result s @ (if first s then [] else ''\<newline>\<newline>'') @ lagging_comments s
         @ block_body f
         @ (if first (add_newlines 0 f False s) then [] else ''\<newline>\<newline>'')
         @ block_comments f @ block_body g
         @ (if final_flush then block_comments g else [])"
  by (simp add: result_add_newlines_top lagging_add_newlines_top)

theorem comment_run_attachment_witness:
  "lagging_comments (add_newlines 0 ''x = 1\<newline># c\<newline>'' False init) = ''# c\<newline>''
   \<and> result (add_newlines 0 ''x = 1\<newline># c\<newline>'' False init) = ''x = 1\<newline>''
   \<and> result (add_newlines 0 ''y = 2\<newline>'' False
         (add_newlines 0 ''x = 1\<newline># c\<newline>'' False init))
       = ''x = 1\<newline>\<newline>\<newline># c\<newline>y = 2\<newline>''"
  using comment_run_attachment [of "''x = 1\<newline># c\<newline>''" False init "''y = 2\<newline>''"]
  by (simp add: init_def block_comments_def block_body_def trailing_comments_def
      leading_lines_def is_comment_line_def rstrip_def is_space_def is_linebreak_def
      first_add_newlines)

text \<open>
  C4 as stated fails on the final flush: the comment run at the end of the block is not
  withheld, it is in the output right after the block's other lines.
\<close>

theorem final_commit_counterexample:
  "result (add_newlines 0 ''x = 1\<newline># c\<newline>'' True init) = ''x = 1\<newline># c\<newline>''"
  by (simp add: add_newlines_def clear_first_def init_def rstrip_def is_space_def
      is_linebreak_def)

text \<open>
  C7. The code at the failing input: a flush that is not final commits \<open>x = 1\<close> and holds
  the comment line after it; the final flush then finds the buffer empty, returns at once
  and leaves the held comment out of the output, whatever the code formatter is.
\<close>

theorem final_flush_drops_held_comments:
  "flush_buffer black_canonical False False (init\<lparr>buffer := ''x = 1\<newline># c\<newline>''\<rparr>)
     = Inr \<lparr>result = ''x = 1\<newline>'', lagging_comments = ''# c\<newline>'', first = False,
             buffer = [], self_target_indent = 0\<rparr>
   \<and> flush_buffer black False True
        \<lparr>result = ''x = 1\<newline>'', lagging_comments = ''# c\<newline>'', first = False,
          buffer = [], self_target_indent = 0\<rparr>
     = Inr \<lparr>result = ''x = 1\<newline>'', lagging_comments = ''# c\<newline>'', first = False,
             buffer = [], self_target_indent = 0\<rparr>"
  by (simp add: flush_buffer_def run_black_format_str_def black_canonical_def endswith_def
      isspace_def is_space_def add_newlines_def clear_first_def init_def rstrip_def
      is_linebreak_def)

section \<open>Claims about the parameter renderer\<close>

text \<open>
  C5. The validity check comes first: when \<open>ast.parse\<close> rejects the value wrapped in
  \<open>param(...)\<close>, \<open>format_param\<close> raises \<open>InvalidParameterSyntax\<close> with the line number and
  the value as its message, whatever the code formatter would do and whatever the layout.
  The value \<open>def(\<close> is the instance where the wrapped text is \<open>param(def()\<close>.
\<close>

theorem invalid_parameter_raises:
  assumes "\<not> ast_parse (''param('' @ str parameter @ '')'')"
  shows "format_param black ast_parse parameter target_indent inline_formatting single_param
           = Inl (InvalidParameterSyntax (line_nb parameter @ str parameter))"
  using assms by (simp add: format_param_def Let_def)

theorem invalid_parameter_raises_witness:
  "\<not> brackets_balance (''param('' @ str \<lparr>line_nb = ''L3: '', key = [], val = ''def('', comments = []\<rparr> @ '')'')
   \<and> format_param black_canonical brackets_balance
         \<lparr>line_nb = ''L3: '', key = [], val = ''def('', comments = []\<rparr> 2 False False
       = Inl (InvalidParameterSyntax ''L3: def('')
   \<and> format_param black_rejecting brackets_balance
         \<lparr>line_nb = ''L3: '', key = [], val = ''def('', comments = []\<rparr> 2 True True
       = Inl (InvalidParameterSyntax ''L3: def('')"
proof -
  let ?p = "\<lparr>line_nb = ''L3: '', key = [], val = ''def('', comments = []\<rparr>"
  have rejected: "\<not> brackets_balance (''param('' @ str ?p @ '')'')"
    by (simp add: brackets_balance_def str_def has_a_key_def)
  show ?thesis
    using rejected
      invalid_parameter_raises [where ast_parse = brackets_balance and parameter = ?p
        and black = black_canonical and target_indent = 2 and inline_formatting = False
        and single_param = False]
      invalid_parameter_raises [where ast_parse = brackets_balance and parameter = ?p
        and black = black_rejecting and target_indent = 2 and inline_formatting = True
        and single_param = True]
    by (simp add: str_def has_a_key_def)
qed

text \<open>
  C9, as amended. When the validity check passes and the code formatter fails, no error is
  raised. The text emitted for the value is the value as the formatter was given it, that
  is the original text with, under inline layout, its line breaks removed; if it contains
  \<open>**\<close>, every \<open>**\<close> followed by a blank loses that blank; line breaks at both ends are
  stripped. The comma, the comments and the line break follow as for any parameter.
\<close>

theorem formatting_failure_fallback:
  assumes "ast_parse (''param('' @ str parameter @ '')'')"
    and "black (if inline_formatting then replace (str parameter) ''\<newline>'' [] else str parameter)
           = Inl e"
  shows "format_param black ast_parse parameter target_indent inline_formatting single_param =
     Inr (strip_chars ''\<newline>''
            (let v = (if inline_formatting then replace (str parameter) ''\<newline>'' []
                      else str parameter)
             in if contains ''**'' v then replace v ''** '' ''**'' else v)
          @ (if single_param then [] else '','')
          @ join (''\<newline>'' @ times TAB (if inline_formatting then 0 else target_indent))
              (comments parameter)
          @ ''\<newline>'')"
  using assms
  by (simp add: format_param_def format_value_def run_black_format_str_def Let_def)

theorem formatting_failure_fallback_witness:
  "brackets_balance (''param('' @ str \<lparr>line_nb = ''L3: '', key = [], val = ''** a, ** b'', comments = []\<rparr> @ '')'')
   \<and> black_rejecting ''** a, ** b'' = Inl ''Cannot parse: ** a, ** b''
   \<and> format_param black_rejecting brackets_balance
         \<lparr>line_nb = ''L3: '', key = [], val = ''** a, ** b'', comments = []\<rparr> 2 False False
       = Inr ''**a, **b,\<newline>''"
proof -
  let ?p = "\<lparr>line_nb = ''L3: '', key = [], val = ''** a, ** b'', comments = []\<rparr>"
  have accepted: "brackets_balance (''param('' @ str ?p @ '')'')"
    by (simp add: brackets_balance_def str_def has_a_key_def)
  have failed: "black_rejecting (if False then replace (str ?p) ''\<newline>'' [] else str ?p)
      = Inl ''Cannot parse: ** a, ** b''"
    by (simp add: black_rejecting_def str_def has_a_key_def)
  show ?thesis
    using accepted failed
      formatting_failure_fallback [where ast_parse = brackets_balance and parameter = ?p
        and black = black_rejecting and inline_formatting = False and target_indent = 2
        and single_param = False and e = "''Cannot parse: ** a, ** b''"]
    by (simp add: str_def has_a_key_def replace_def startswith_def strip_chars_def
        rstrip_chars_def)
qed

text \<open>
  C9 as stated fails: under inline layout a value written on two lines that the code
  formatter cannot parse is emitted with its line break removed, not as it was written.
\<close>

theorem fallback_as_written_counterexample:
  "format_param black_rejecting brackets_balance
     \<lparr>line_nb = ''L3: '', key = [], val = ''f(x,\<newline>  y) for x in z'', comments = []\<rparr> 2 True True
   = Inr ''f(x,  y) for x in z\<newline>''"
  by (simp add: format_param_def format_value_def run_black_format_str_def
      black_rejecting_def brackets_balance_def str_def has_a_key_def replace_def
      startswith_def strip_chars_def rstrip_chars_def)

lemma strip_Nil: "(strip s = []) = list_all is_space s"
proof (cases "list_all is_space s")
  case True
  then show ?thesis
    by (auto simp add: strip_def rstrip_def list_all_iff dest: set_dropWhileD)
next
  case False
  then have ne: "dropWhile is_space s \<noteq> []"
    by (simp add: list_all_iff)
  then have "\<not> is_space (hd (dropWhile is_space s))"
    by (rule hd_dropWhile)
  moreover have "hd (dropWhile is_space s) \<in> set (rev (dropWhile is_space s))"
    using ne by simp
  ultimately have "dropWhile is_space (rev (dropWhile is_space s)) \<noteq> []"
    by (metis dropWhile_eq_Nil_conv)
  then show ?thesis using False
    by (simp add: strip_def rstrip_def)
qed

lemma splitlines_keepends_line:
  "\<forall>c \<in> set w. \<not> is_linebreak c \<Longrightarrow>
     splitlines_keepends (w @ [CHR 0x0A]) = [w @ [CHR 0x0A]]"
proof (induction w)
  case Nil
  then show ?case by simp
next
  case (Cons c w)
  then show ?case
    by (cases "w @ [CHR 0x0A]") (auto simp add: is_linebreak_CR_LF)
qed

lemma indent_line:
  assumes "\<forall>c \<in> set w. \<not> is_linebreak c" and "\<not> list_all is_space w"
  shows "indent (w @ [CHR 0x0A]) u = u @ w @ [CHR 0x0A]"
  using assms by (simp add: indent_def splitlines_keepends_line strip_Nil)

lemma string_format_plain:
  assumes "plain_line w"
  shows "string_format (w @ ''\<newline>'') t = times TAB t @ w @ ''\<newline>''"
proof -
  from assms have "search (w @ ''\<newline>'') = None"
    by (simp add: plain_line_def)
  then have "string_format (w @ ''\<newline>'') t = indent (w @ ''\<newline>'') (times TAB t)"
    unfolding string_format_def Let_def by (subst over_matches.simps) simp
  then show ?thesis
    using assms indent_line [of w "times TAB t"]
    by (simp add: plain_line_def)
qed

lemma strip_chars_line:
  assumes "s \<noteq> []" and "hd s \<noteq> CHR 0x0A" and "last s \<noteq> CHR 0x0A"
  shows "strip_chars [CHR 0x0A] (s @ [CHR 0x0A]) = s"
proof -
  have "dropWhile (\<lambda>c. c \<in> set [CHR 0x0A]) (s @ [CHR 0x0A]) = s @ [CHR 0x0A]"
    using assms by (cases s) simp_all
  moreover have "rev s \<noteq> []" and "hd (rev s) \<noteq> CHR 0x0A"
    using assms by (simp_all add: hd_rev)
  then have "dropWhile (\<lambda>c. c \<in> set [CHR 0x0A]) (rev s) = rev s"
    by (cases "rev s") simp_all
  ultimately show ?thesis
    by (simp add: strip_chars_def rstrip_chars_def)
qed

lemma times_TAB_numeral:
  "times TAB 0 = []" "times TAB 1 = ''    ''" "times TAB 2 = ''        ''"
  by (simp_all add: times_def TAB_def eval_nat_numeral)

lemma times_TAB_space: "c \<in> set (times TAB t) \<Longrightarrow> c = CHR '' ''"
  by (auto simp add: times_def TAB_def split: if_splits)

lemma replace_from_absent:
  "c \<notin> set s \<Longrightarrow> replace_from [c] new s = s"
proof (induction s)
  case Nil
  then show ?case by simp
next
  case (Cons a s)
  then have "a \<noteq> c" and "c \<notin> set s" by auto
  then show ?case using Cons.IH by (simp add: startswith_def)
qed

lemma plain_line_strip:
  assumes "plain_line w"
  shows "strip_chars ''\<newline>'' (times TAB t @ w @ ''\<newline>'') = times TAB t @ w"
proof -
  from assms have all: "\<forall>c \<in> set w. \<not> is_linebreak c" and some: "\<not> list_all is_space w"
    by (simp_all add: plain_line_def)
  from some have ne: "w \<noteq> []"
    by auto
  from all have nonl: "\<forall>c \<in> set w. c \<noteq> CHR 0x0A"
    using is_linebreak_CR_LF(2) by blast
  have first_char: "hd (times TAB t @ w) \<noteq> CHR 0x0A"
  proof (cases "times TAB t")
    case Nil
    have "hd w \<in> set w" using ne by (rule hd_in_set)
    then show ?thesis using Nil nonl by auto
  next
    case (Cons c cs)
    then have "c \<in> set (times TAB t)" by simp
    then have "c = CHR '' ''" by (rule times_TAB_space)
    then show ?thesis using Cons by simp
  qed
  have "last w \<in> set w" using ne by (rule last_in_set)
  then have last_char: "last (times TAB t @ w) \<noteq> CHR 0x0A"
    using ne nonl by auto
  have "times TAB t @ w \<noteq> []" using ne by simp
  then have "strip_chars [CHR 0x0A] ((times TAB t @ w) @ [CHR 0x0A]) = times TAB t @ w"
    using first_char last_char by (rule strip_chars_line)
  then show ?thesis by simp
qed

lemma format_param_plain:
  assumes "ast_parse (''param('' @ str p @ '')'')" and "\<not> has_a_key p"
    and "CHR 0x0A \<notin> set (str p)" and "black (str p) = Inr (w @ ''\<newline>'')" and "plain_line w"
  shows "format_param black ast_parse p t False True =
           Inr (times TAB t @ w @ join (''\<newline>'' @ times TAB t) (comments p) @ ''\<newline>'')"
    and "format_param black ast_parse p t True True =
           Inr (w @ join ''\<newline>'' (comments p) @ ''\<newline>'')"
proof -
  have nl: "replace (str p) ''\<newline>'' [] = str p"
    using assms(3) by (simp add: replace_def replace_from_absent)
  have fmt: "\<And>d. format_value black p d (str p) = Inr (times TAB d @ w @ ''\<newline>'')"
    using assms(2,4,5)
    by (simp add: format_value_def run_black_format_str_def string_format_plain)
  show "format_param black ast_parse p t False True =
           Inr (times TAB t @ w @ join (''\<newline>'' @ times TAB t) (comments p) @ ''\<newline>'')"
    using assms(1) fmt [of t] plain_line_strip [OF assms(5), of t]
    by (simp add: format_param_def Let_def)
  have zero: "times TAB 0 = []"
    by (simp add: times_def)
  show "format_param black ast_parse p t True True =
           Inr (w @ join ''\<newline>'' (comments p) @ ''\<newline>'')"
    using assms(1) nl fmt [of 0] plain_line_strip [OF assms(5), of 0] zero
    by (simp add: format_param_def Let_def)
qed

text \<open>
  The layout of a group of the single-parameter kind that is not the inline variant,
  holding one parameter: in a rule the keyword line ends in a line break and the rendered
  parameter follows on the next line; outside a rule the keyword line ends in a blank and
  the parameter follows on it. Where the code formatter turns the value into one plain
  line, the parameter line in the rule is indented one level deeper than the keyword.
\<close>

lemma single_param_layout:
  assumes "p_class g = SingleParam" and "all_params g = [p]"
  shows "format_params black ast_parse g True =
           (case format_param black ast_parse p (syntax_indent g) False True of
              Inl e \<Rightarrow> Inl e
            | Inr r \<Rightarrow> Inr (header g @ ''\<newline>'' @ r))
         \<and> format_params black ast_parse g False =
           (case format_param black ast_parse p (syntax_indent g) True True of
              Inl e \<Rightarrow> Inl e
            | Inr r \<Rightarrow> Inr (header g @ '' '' @ r))
         \<and> (ast_parse (''param('' @ str p @ '')'') \<and> \<not> has_a_key p
              \<and> CHR 0x0A \<notin> set (str p) \<and> black (str p) = Inr (w @ ''\<newline>'')
              \<and> plain_line w \<longrightarrow>
            format_params black ast_parse g True =
              Inr (header g @ ''\<newline>'' @ times TAB (syntax_indent g) @ w
                   @ join (''\<newline>'' @ times TAB (syntax_indent g)) (comments p) @ ''\<newline>'')
            \<and> format_params black ast_parse g False =
              Inr (header g @ '' '' @ w @ join ''\<newline>'' (comments p) @ ''\<newline>''))"
proof -
  have block: "format_params black ast_parse g True =
           (case format_param black ast_parse p (syntax_indent g) False True of
              Inl e \<Rightarrow> Inl e
            | Inr r \<Rightarrow> Inr (header g @ ''\<newline>'' @ r))"
    using assms
    by (simp add: format_params_def header_def issubclass_SingleParam_def Let_def
        split: sum.splits)
  have inline: "format_params black ast_parse g False =
           (case format_param black ast_parse p (syntax_indent g) True True of
              Inl e \<Rightarrow> Inl e
            | Inr r \<Rightarrow> Inr (header g @ '' '' @ r))"
    using assms
    by (simp add: format_params_def header_def issubclass_SingleParam_def Let_def
        split: sum.splits)
  have plain: "ast_parse (''param('' @ str p @ '')'') \<and> \<not> has_a_key p
              \<and> CHR 0x0A \<notin> set (str p) \<and> black (str p) = Inr (w @ ''\<newline>'')
              \<and> plain_line w \<longrightarrow>
            format_params black ast_parse g True =
              Inr (header g @ ''\<newline>'' @ times TAB (syntax_indent g) @ w
                   @ join (''\<newline>'' @ times TAB (syntax_indent g)) (comments p) @ ''\<newline>'')
            \<and> format_params black ast_parse g False =
              Inr (header g @ '' '' @ w @ join ''\<newline>'' (comments p) @ ''\<newline>'')"
    using format_param_plain [of ast_parse p black w "syntax_indent g"]
    by (simp add: block inline)
  show ?thesis
    using block inline plain by blast
qed

text \<open>
  C8. The code at the failing input, a single-parameter group in a rule with the keyword
  line at depth 1. The value \<open>**cmd\<close> passes the validity check and the code formatter
  cannot parse it: the handler of the failure keeps the value without indenting it, so it
  stands at the start of its line, while its comments are still joined with the indent.
  The value \<open>cmd\<close>, which the code formatter accepts, is indented one level deeper than
  the keyword by the same function.
\<close>

theorem rejected_value_not_indented:
  "format_params black_rejecting brackets_balance
     \<lparr>p_class = SingleParam, keyword_name = ''shell'', comment = [], syntax_indent = 2,
       all_params = [\<lparr>line_nb = ''L2: '', key = [], val = ''**cmd'', comments = []\<rparr>]\<rparr>
     True
   = Inr ''    shell:\<newline>**cmd\<newline>''
   \<and> format_params black_rejecting brackets_balance
     \<lparr>p_class = SingleParam, keyword_name = ''shell'', comment = [], syntax_indent = 2,
       all_params = [\<lparr>line_nb = ''L2: '', key = [], val = ''**cmd'',
                      comments = ['' # one'', ''# two'']\<rparr>]\<rparr>
     True
   = Inr ''    shell:\<newline>**cmd # one\<newline>        # two\<newline>''
   \<and> format_params black_canonical brackets_balance
     \<lparr>p_class = SingleParam, keyword_name = ''shell'', comment = [], syntax_indent = 2,
       all_params = [\<lparr>line_nb = ''L2: '', key = [], val = ''cmd'', comments = []\<rparr>]\<rparr>
     True
   = Inr ''    shell:\<newline>        cmd\<newline>''"
proof -
  have fmt: "\<And>t. string_format ''cmd\<newline>'' t = times TAB t @ ''cmd\<newline>''"
    unfolding string_format_def Let_def
    by (subst over_matches.simps)
      (simp add: match_here_def match_quoted_def startswith_def indent_def strip_def
        rstrip_def is_space_def is_linebreak_def)
  have rejected: "format_params black_rejecting brackets_balance
     \<lparr>p_class = SingleParam, keyword_name = ''shell'', comment = [], syntax_indent = 2,
       all_params = [\<lparr>line_nb = ''L2: '', key = [], val = ''**cmd'', comments = []\<rparr>]\<rparr>
     True
   = Inr ''    shell:\<newline>**cmd\<newline>''"
    by (simp add: format_params_def format_param_def format_value_def
        run_black_format_str_def black_rejecting_def brackets_balance_def str_def
        has_a_key_def issubclass_SingleParam_def Let_def replace_def startswith_def
        strip_chars_def rstrip_chars_def times_TAB_numeral)
  have commented: "format_params black_rejecting brackets_balance
     \<lparr>p_class = SingleParam, keyword_name = ''shell'', comment = [], syntax_indent = 2,
       all_params = [\<lparr>line_nb = ''L2: '', key = [], val = ''**cmd'',
                      comments = ['' # one'', ''# two'']\<rparr>]\<rparr>
     True
   = Inr ''    shell:\<newline>**cmd # one\<newline>        # two\<newline>''"
    by (simp add: format_params_def format_param_def format_value_def
        run_black_format_str_def black_rejecting_def brackets_balance_def str_def
        has_a_key_def issubclass_SingleParam_def Let_def replace_def startswith_def
        strip_chars_def rstrip_chars_def times_TAB_numeral)
  have accepted: "format_params black_canonical brackets_balance
     \<lparr>p_class = SingleParam, keyword_name = ''shell'', comment = [], syntax_indent = 2,
       all_params = [\<lparr>line_nb = ''L2: '', key = [], val = ''cmd'', comments = []\<rparr>]\<rparr>
     True
   = Inr ''    shell:\<newline>        cmd\<newline>''"
    by (simp add: format_params_def format_param_def format_value_def
        run_black_format_str_def black_canonical_def endswith_def brackets_balance_def
        str_def has_a_key_def issubclass_SingleParam_def Let_def fmt replace_def
        startswith_def strip_chars_def rstrip_chars_def times_TAB_numeral)
  show ?thesis
    using rejected commented accepted by blast
qed

text \<open>
  C2, as amended. The group of the example, in a rule, with a code formatter that returns
  the value as it is, closed by a line break. The single-parameter kind that is not the
  inline variant gives the block layout without a comma; the inline variant gives the
  inline layout without a comma; the block layout with a comma after the value is what
  the list kind gives.
\<close>

theorem input_example:
  assumes "black ''\"x.txt\"'' = Inr ''\"x.txt\"\<newline>''" and "ast_parse ''param(\"x.txt\")''"
  shows "format_params black ast_parse (input_group SingleParam) True
           = Inr ''    input:\<newline>        \"x.txt\"\<newline>''
         \<and> format_params black ast_parse (input_group RuleInlineSingleParam) True
           = Inr ''    input: \"x.txt\"\<newline>''
         \<and> format_params black ast_parse (input_group ParamList) True
           = Inr ''    input:\<newline>        \"x.txt\",\<newline>''"
proof -
  have fmt: "\<And>t. string_format ''\"x.txt\"\<newline>'' t = times TAB t @ ''\"x.txt\"\<newline>''"
    unfolding string_format_def Let_def
    by (subst over_matches.simps)
      (simp add: match_here_def match_quoted_def startswith_def indent_def strip_def
        rstrip_def is_space_def is_linebreak_def)
  show ?thesis
    using assms
    by (simp add: input_group_def format_params_def format_param_def format_value_def
        run_black_format_str_def str_def has_a_key_def issubclass_SingleParam_def
        Let_def fmt replace_def startswith_def strip_chars_def rstrip_chars_def
        times_TAB_numeral)
qed

theorem input_example_witness:
  "black_canonical ''\"x.txt\"'' = Inr ''\"x.txt\"\<newline>''
   \<and> brackets_balance ''param(\"x.txt\")''
   \<and> format_params black_canonical brackets_balance (input_group RuleInlineSingleParam) True
       = Inr ''    input: \"x.txt\"\<newline>''
   \<and> format_params black_canonical brackets_balance (input_group ParamList) True
       = Inr ''    input:\<newline>        \"x.txt\",\<newline>''"
proof -
  have formatter: "black_canonical ''\"x.txt\"'' = Inr ''\"x.txt\"\<newline>''"
    by (simp add: black_canonical_def endswith_def)
  have parser: "brackets_balance ''param(\"x.txt\")''"
    by (simp add: brackets_balance_def)
  show ?thesis
    using formatter parser
      input_example [where black = black_canonical and ast_parse = brackets_balance]
    by simp
qed

text \<open>
  C2 as stated fails: the single-parameter kind that is not the inline variant renders
  without a comma after the value. With the group's \<open>target_indent\<close> itself set to 1 the
  keyword line is not indented at all.
\<close>

theorem trailing_comma_counterexample:
  "format_params black_canonical brackets_balance (input_group SingleParam) True
     = Inr ''    input:\<newline>        \"x.txt\"\<newline>''
   \<and> format_params black_canonical brackets_balance
       ((input_group SingleParam)\<lparr>syntax_indent := 1\<rparr>) True
     = Inr ''input:\<newline>    \"x.txt\"\<newline>''"
proof -
  have fmt: "\<And>t. string_format ''\"x.txt\"\<newline>'' t = times TAB t @ ''\"x.txt\"\<newline>''"
    unfolding string_format_def Let_def
    by (subst over_matches.simps)
      (simp add: match_here_def match_quoted_def startswith_def indent_def strip_def
        rstrip_def is_space_def is_linebreak_def)
  show ?thesis
    by (simp add: input_group_def format_params_def format_param_def format_value_def
        run_black_format_str_def black_canonical_def endswith_def brackets_balance_def
        str_def has_a_key_def issubclass_SingleParam_def Let_def fmt replace_def
        startswith_def strip_chars_def rstrip_chars_def times_TAB_numeral)
qed

section \<open>Claims about the literal-aware indenter\<close>






lemma replace_char: "replace s [c] new = concat (map (\<lambda>x. if x = c then new else [x]) s)"
proof -
  have "replace_from [c] new s = concat (map (\<lambda>x. if x = c then new else [x]) s)"
    by (induction s) (simp_all add: startswith_def)
  then show ?thesis by (simp add: replace_def)
qed

lemma replace_char_absent: "c \<notin> set s \<Longrightarrow> replace s [c] new = s"
proof -
  assume "c \<notin> set s"
  then have "map (\<lambda>x. if x = c then new else [x]) s = map (\<lambda>x. [x]) s"
    by (intro map_cong) auto
  then have "replace s [c] new = concat (map (\<lambda>x. [x]) s)"
    by (simp only: replace_char)
  then show ?thesis
    by simp
qed

lemma tab_not_in_TAB: "CHR 0x09 \<notin> set TAB" "CHR 0x09 \<notin> set (times TAB t)"
  by (auto simp add: TAB_def times_def)

lemma no_tab_expanded: "CHR 0x09 \<notin> set (replace m [CHR 0x09] TAB)"
  using tab_not_in_TAB(1) by (auto simp add: replace_char split: if_splits)

lemma replace_tab_twice:
  "replace (replace m [CHR 0x09] TAB) [CHR 0x09] TAB = replace m [CHR 0x09] TAB"
  using no_tab_expanded by (rule replace_char_absent)






lemma startswith_trans: "startswith a b \<Longrightarrow> startswith b c \<Longrightarrow> startswith a c"
proof -
  assume ab: "startswith a b" and bc: "startswith b c"
  from bc have "length (take (length c) b) = length c"
    by (simp only: startswith_def)
  then have "length c \<le> length b"
    by simp
  then have "take (length c) a = take (length c) (take (length b) a)"
    by simp
  also have "\<dots> = c"
    using ab bc by (simp add: startswith_def)
  finally show ?thesis
    by (simp add: startswith_def)
qed

lemma startswith_take: "startswith a (take k a)"
  by (cases "k \<le> length a") (simp_all add: startswith_def min_def)

lemma startswith_takeWhile: "startswith l (takeWhile P l)"
  by (simp add: startswith_def takeWhile_eq_take [symmetric])

lemma zip_common:
  "take (length (takeWhile (\<lambda>(x, y). x = y) (zip a b))) a
     = take (length (takeWhile (\<lambda>(x, y). x = y) (zip a b))) b"
proof (induction a arbitrary: b)
  case Nil
  then show ?case by simp
next
  case (Cons x a)
  then show ?case by (cases b) simp_all
qed

lemma find_margin_common:
  "find_margin (Some m) inds = Some r \<Longrightarrow>
     startswith m r \<and> (\<forall>i \<in> set inds. startswith i r)"
proof (induction inds arbitrary: m)
  case Nil
  then show ?case by (simp add: startswith_def)
next
  case (Cons i inds)
  let ?k = "length (takeWhile (\<lambda>(x, y). x = y) (zip m i))"
  show ?case
  proof (cases "startswith i m")
    case True
    then have "find_margin (Some m) inds = Some r"
      using Cons.prems by simp
    then have "startswith m r \<and> (\<forall>j \<in> set inds. startswith j r)"
      by (rule Cons.IH)
    then show ?thesis
      using True startswith_trans [of i m r] by simp
  next
    case not_longer: False
    show ?thesis
    proof (cases "startswith m i")
      case True
      then have "find_margin (Some i) inds = Some r"
        using Cons.prems not_longer by simp
      then have "startswith i r \<and> (\<forall>j \<in> set inds. startswith j r)"
        by (rule Cons.IH)
      then show ?thesis
        using True startswith_trans [of m i r] by simp
    next
      case False
      then have "find_margin (Some (take ?k m)) inds = Some r"
        using Cons.prems not_longer by simp
      then have ih: "startswith (take ?k m) r \<and> (\<forall>j \<in> set inds. startswith j r)"
        by (rule Cons.IH)
      have "startswith m (take ?k m)"
        by (rule startswith_take)
      moreover have "startswith i (take ?k m)"
        using zip_common [of m i] startswith_take [of i ?k] by simp
      ultimately show ?thesis
        using ih startswith_trans [of m "take ?k m" r] startswith_trans [of i "take ?k m" r]
        by simp
    qed
  qed
qed

lemma find_margin_blank:
  "find_margin (Some m) inds = Some r \<Longrightarrow> list_all is_blank m \<Longrightarrow> list_all is_blank r"
proof -
  assume "find_margin (Some m) inds = Some r" and m: "list_all is_blank m"
  then have "startswith m r"
    using find_margin_common by blast
  then have "take (length r) m = r"
    by (simp only: startswith_def)
  then have "set r \<subseteq> set m"
    using set_take_subset [of "length r" m] by simp
  then show ?thesis
    using m by (auto simp add: list_all_iff)
qed

lemma dedent_uniform:
  "\<exists>margin. list_all is_blank margin
     \<and> (\<forall>l \<in> set (split (CHR 0x0A) s). \<not> list_all is_blank l \<longrightarrow> startswith l margin)
     \<and> dedent s = join ''\<newline>'' (map (dedent_line (length margin)) (split (CHR 0x0A) s))"
proof -
  define lines where
    "lines = map (\<lambda>line. if list_all is_blank line then [] else line) (split (CHR 0x0A) s)"
  define indents where
    "indents = map (takeWhile is_blank) (filter (\<lambda>line. line \<noteq> []) lines)"
  have unfolded: "dedent s =
     (case find_margin None indents of
        None \<Rightarrow> join ''\<newline>'' lines
      | Some margin \<Rightarrow>
          if margin = [] then join ''\<newline>'' lines
          else join ''\<newline>''
                 (map (\<lambda>line. if startswith line margin then drop (length margin) line
                              else line) lines))"
    unfolding dedent_def Let_def lines_def indents_def by (rule refl)
  have norm0: "lines = map (dedent_line 0) (split (CHR 0x0A) s)"
    by (simp add: lines_def dedent_line_def)
  have in_indents: "takeWhile is_blank l \<in> set indents"
    if l: "l \<in> set (split (CHR 0x0A) s)" and nb: "\<not> list_all is_blank l" for l
  proof -
    from nb have "l \<noteq> []" by auto
    moreover from l nb have "l \<in> set lines"
      unfolding lines_def by (auto simp add: image_iff intro: bexI [of _ l])
    ultimately have "l \<in> set (filter (\<lambda>line. line \<noteq> []) lines)"
      by simp
    then show ?thesis
      unfolding indents_def by (simp add: image_iff) blast
  qed
  have indents_blank: "list_all is_blank i" if "i \<in> set indents" for i
  proof -
    from that obtain l where "i = takeWhile is_blank l"
      unfolding indents_def by auto
    then show ?thesis
      by (auto simp add: list_all_iff dest: set_takeWhileD)
  qed
  show ?thesis
  proof (cases "find_margin None indents")
    case None
    have "indents = []"
    proof (cases indents)
      case Nil
      then show ?thesis .
    next
      case (Cons i rest)
      then have "find_margin None indents = find_margin (Some i) rest"
        by simp
      moreover have "find_margin (Some i) rest \<noteq> None"
        by (induction rest arbitrary: i) simp_all
      ultimately show ?thesis using None by simp
    qed
    have starts: "\<forall>l \<in> set (split (CHR 0x0A) s). \<not> list_all is_blank l \<longrightarrow> startswith l []"
      by (simp add: startswith_def)
    have "dedent s = join ''\<newline>'' lines"
      by (simp add: unfolded None)
    then have "dedent s = join ''\<newline>'' (map (dedent_line (length ([]::string))) (split (CHR 0x0A) s))"
      by (simp only: norm0 list.size)
    then show ?thesis
      using starts by (intro exI [of _ "[]"]) simp
  next
    case (Some margin)
    then obtain i rest where ir: "indents = i # rest"
      and fm: "find_margin (Some i) rest = Some margin"
      by (cases indents) auto
    have "list_all is_blank i"
      using indents_blank [of i] ir by simp
    then have blank: "list_all is_blank margin"
      using fm find_margin_blank by blast
    have common: "\<forall>j \<in> set indents. startswith j margin"
      using find_margin_common [OF fm] ir by simp
    have starts: "\<forall>l \<in> set (split (CHR 0x0A) s). \<not> list_all is_blank l \<longrightarrow> startswith l margin"
    proof (intro ballI impI)
      fix l
      assume l: "l \<in> set (split (CHR 0x0A) s)" and nb: "\<not> list_all is_blank l"
      then have "startswith (takeWhile is_blank l) margin"
        using in_indents common by blast
      then show "startswith l margin"
        using startswith_takeWhile [of l is_blank] startswith_trans by blast
    qed
    show ?thesis
    proof (cases "margin = []")
      case True
      have "dedent s = join ''\<newline>'' lines"
        by (simp add: unfolded Some True)
      then have "dedent s = join ''\<newline>'' (map (dedent_line (length margin)) (split (CHR 0x0A) s))"
        using True by (simp only: norm0 list.size)
      then show ?thesis
        using blank starts by blast
    next
      case False
      have each: "(if startswith (if list_all is_blank l then [] else l) margin
                   then drop (length margin) (if list_all is_blank l then [] else l)
                   else (if list_all is_blank l then [] else l))
                  = dedent_line (length margin) l"
        if "l \<in> set (split (CHR 0x0A) s)" for l
      proof (cases "list_all is_blank l")
        case True
        then show ?thesis using False by (simp add: dedent_line_def startswith_def)
      next
        case nb: False
        then have "startswith l margin" using starts that by blast
        then show ?thesis using nb by (simp add: dedent_line_def)
      qed
      have "map (\<lambda>line. if startswith line margin then drop (length margin) line else line) lines
          = map (dedent_line (length margin)) (split (CHR 0x0A) s)"
        unfolding lines_def map_map comp_def
        by (rule map_cong [OF refl]) (rule each)
      moreover have "dedent s = join ''\<newline>''
          (map (\<lambda>line. if startswith line margin then drop (length margin) line else line) lines)"
        by (simp add: unfolded Some False)
      ultimately have "dedent s = join ''\<newline>'' (map (dedent_line (length margin)) (split (CHR 0x0A) s))"
        by simp
      then show ?thesis
        using blank starts by blast
    qed
  qed
qed

lemma find_Some:
  "find sub s = Some k \<Longrightarrow> k \<le> length s \<and> startswith (drop k s) sub"
proof (induction s arbitrary: k)
  case Nil
  then show ?case by (simp add: startswith_def split: if_splits)
next
  case (Cons c s)
  show ?case
  proof (cases "startswith (c # s) sub")
    case True
    then show ?thesis using Cons.prems by simp
  next
    case False
    then obtain j where "find sub s = Some j" and "k = Suc j"
      using Cons.prems by auto
    then show ?thesis using Cons.IH [of j] by simp
  qed
qed

lemma match_quoted_shape:
  assumes "match_quoted d s = Some m"
  shows "\<exists>body rest. s = m @ rest \<and> m = d @ body @ d
     \<and> find d (body @ d @ rest) = Some (length body)"
proof -
  from assms have st: "take (length d) s = d"
    by (simp add: match_quoted_def startswith_def split: if_splits)
  with assms obtain k where k: "find d (drop (length d) s) = Some k"
    and m: "m = take (length d + k + length d) s"
    by (auto simp add: match_quoted_def startswith_def split: option.splits)
  define s' where "s' = drop (length d) s"
  have s: "s = d @ s'"
    using st append_take_drop_id [of "length d" s] by (simp add: s'_def)
  have kl: "k \<le> length s'" and sk: "take (length d) (drop k s') = d"
    using find_Some [of d s' k] k by (simp_all add: s'_def startswith_def)
  define body where "body = take k s'"
  define rest where "rest = drop (length d) (drop k s')"
  have dk: "drop k s' = d @ rest"
    using append_take_drop_id [of "length d" "drop k s'"] sk by (simp only: rest_def)
  have s'_eq: "s' = body @ d @ rest"
    using append_take_drop_id [of k s'] dk by (simp only: body_def)
  have lb: "length body = k"
    using kl by (simp add: body_def)
  have "m = take (length d + k + length d) (d @ body @ d @ rest)"
    using m s s'_eq by simp
  then have "m = d @ body @ d"
    using lb by simp
  moreover have "s = (d @ body @ d) @ rest"
    using s s'_eq by simp
  moreover have "find d (body @ d @ rest) = Some (length body)"
    using k lb s'_eq by (simp only: s'_def [symmetric])
  ultimately show ?thesis by blast
qed

lemma expand_append:
  "replace (a @ b) [CHR 0x09] TAB = replace a [CHR 0x09] TAB @ replace b [CHR 0x09] TAB"
  by (simp add: replace_char)

lemma expand_quotes:
  "replace [CHR 0x22, CHR 0x22, CHR 0x22] [CHR 0x09] TAB = [CHR 0x22, CHR 0x22, CHR 0x22]"
  by (simp add: replace_char)

lemma expand_Cons:
  "replace (c # b) [CHR 0x09] TAB =
     (if c = CHR 0x09 then ''    '' @ replace b [CHR 0x09] TAB else c # replace b [CHR 0x09] TAB)"
  by (simp add: replace_char TAB_def)

lemma expanded_two_quotes:
  assumes "take 2 (replace x [CHR 0x09] TAB @ [CHR 0x22, CHR 0x22, CHR 0x22]) = [CHR 0x22, CHR 0x22]"
  shows "take 2 (x @ [CHR 0x22, CHR 0x22, CHR 0x22] @ rest) = [CHR 0x22, CHR 0x22]"
proof (cases x)
  case Nil
  then show ?thesis by simp
next
  case (Cons d x')
  show ?thesis
  proof (cases x')
    case Nil
    then show ?thesis using assms Cons
      by (simp add: expand_Cons replace_char TAB_def numeral_2_eq_2 split: if_splits)
  next
    case (Cons e x'')
    then show ?thesis using assms \<open>x = d # x'\<close>
      by (simp add: expand_Cons numeral_2_eq_2 split: if_splits)
  qed
qed

lemma find_expanded:
  "find [CHR 0x22, CHR 0x22, CHR 0x22] (b @ [CHR 0x22, CHR 0x22, CHR 0x22] @ rest)
       = Some (length b) \<Longrightarrow>
   find [CHR 0x22, CHR 0x22, CHR 0x22]
       (replace b [CHR 0x09] TAB @ [CHR 0x22, CHR 0x22, CHR 0x22])
     = Some (length (replace b [CHR 0x09] TAB))"
proof (induction b)
  case Nil
  then show ?case by (simp add: replace_char startswith_def)
next
  case (Cons c b)
  let ?q = "[CHR 0x22, CHR 0x22, CHR 0x22]"
  from Cons.prems have ns: "\<not> startswith (c # b @ ?q @ rest) ?q"
    by (auto split: if_splits)
  with Cons.prems have "find ?q (b @ ?q @ rest) = Some (length b)"
    by auto
  then have ih: "find ?q (replace b [CHR 0x09] TAB @ ?q)
      = Some (length (replace b [CHR 0x09] TAB))"
    by (rule Cons.IH)
  show ?case
  proof (cases "c = CHR 0x09")
    case True
    then show ?thesis using ih
      by (simp add: expand_Cons startswith_def)
  next
    case False
    have "\<not> startswith (c # replace b [CHR 0x09] TAB @ ?q) ?q"
    proof
      assume "startswith (c # replace b [CHR 0x09] TAB @ ?q) ?q"
      then have c: "c = CHR 0x22"
        and two: "take 2 (replace b [CHR 0x09] TAB @ ?q) = [CHR 0x22, CHR 0x22]"
        by (simp_all add: startswith_def numeral_2_eq_2)
      from two have "take 2 (b @ ?q @ rest) = [CHR 0x22, CHR 0x22]"
        by (rule expanded_two_quotes)
      then have "startswith (c # b @ ?q @ rest) ?q"
        using c by (simp add: startswith_def numeral_2_eq_2)
      then show False using ns by simp
    qed
    then show ?thesis using ih False
      by (simp add: expand_Cons)
  qed
qed

lemma strip_closing_quotes:
  "find [CHR 0x22, CHR 0x22, CHR 0x22] (b @ [CHR 0x22, CHR 0x22, CHR 0x22])
       = Some (length b) \<Longrightarrow>
   replace_from [CHR 0x22, CHR 0x22, CHR 0x22] [] (b @ [CHR 0x22, CHR 0x22, CHR 0x22]) = b"
proof (induction b)
  case Nil
  then show ?case by (simp add: startswith_def)
next
  case (Cons c b)
  let ?q = "[CHR 0x22, CHR 0x22, CHR 0x22]"
  from Cons.prems have ns: "\<not> startswith (c # b @ ?q) ?q"
    by (auto split: if_splits)
  with Cons.prems have "find ?q (b @ ?q) = Some (length b)"
    by auto
  then have "replace_from ?q [] (b @ ?q) = b"
    by (rule Cons.IH)
  then show ?case using ns by simp
qed

lemma newline_expanded:
  "(CHR 0x0A \<in> set (replace m [CHR 0x09] TAB)) = (CHR 0x0A \<in> set m)"
  by (auto simp add: replace_char TAB_def split: if_splits)

lemma format_literal_multiline:
  assumes "match_quoted [CHR 0x22, CHR 0x22, CHR 0x22] s = Some m"
    and "CHR 0x0A \<in> set m" and "0 < t"
  shows "\<exists>body. m = [CHR 0x22, CHR 0x22, CHR 0x22] @ body @ [CHR 0x22, CHR 0x22, CHR 0x22]
     \<and> format_literal u t m =
         indent ([CHR 0x22, CHR 0x22, CHR 0x22] @ dedent (replace body [CHR 0x09] TAB)
                 @ [CHR 0x22, CHR 0x22, CHR 0x22]) u"
proof -
  let ?q = "[CHR 0x22, CHR 0x22, CHR 0x22]"
  from assms(1) obtain body rest where m: "m = ?q @ body @ ?q"
    and first: "find ?q (body @ ?q @ rest) = Some (length body)"
    using match_quoted_shape by blast
  let ?b = "replace body [CHR 0x09] TAB"
  have ms: "replace m [CHR 0x09] TAB = ?q @ ?b @ ?q"
    by (simp only: m expand_append expand_quotes)
  have "find ?q (?b @ ?q) = Some (length ?b)"
    using first by (rule find_expanded)
  then have "replace_from ?q [] (?b @ ?q) = ?b"
    by (rule strip_closing_quotes)
  then have stripped: "replace (?q @ ?b @ ?q) ?q [] = ?b"
    by (simp add: replace_def startswith_def)
  have "count_list (replace m [CHR 0x09] TAB) (CHR 0x0A) \<noteq> 0"
    using assms(2) newline_expanded [of m] by (simp only: count_list_0_iff) simp
  then have "count_list (replace m [CHR 0x09] TAB) (CHR 0x0A) > 0"
    by simp
  then have "format_literal u t m = indent (?q @ dedent ?b @ ?q) u"
    using assms(3) stripped by (simp add: format_literal_def Let_def ms)
  then show ?thesis using m by blast
qed

lemma times_numeral: "times s 0 = []" "times s 1 = s" "times s 2 = s @ s"
  by (simp_all add: times_def eval_nat_numeral)

lemma string_format_unfold:
  assumes "search s = Some (pre, m, post)"
  shows "string_format s t =
     indent pre (times TAB t) @ format_literal (times TAB t) t m @ string_format post t"
  unfolding string_format_def Let_def
  using assms by (subst over_matches.simps) simp

text \<open>
  C3, as amended. \<open>string_format\<close> appends for every triple-delimited literal what
  \<open>format_literal\<close> makes of it as a unit. A literal without a line break, and any
  literal at depth 0, is the indent followed by the literal with its tabs replaced by
  \<open>TAB\<close>; without tabs its text is unchanged. A literal in three double quotes with a line
  break, at a depth above 0, loses its delimiters, is dedented and gets the delimiters and
  the indent back as one text: with tabs replaced, lines of blanks become empty and every
  other line loses the same margin, with which it starts, so these lines keep their
  indentation relative to one another.
\<close>

theorem literal_handling:
  "(search s = Some (pre, m, post) \<longrightarrow>
      string_format s t =
        indent pre (times TAB t) @ format_literal (times TAB t) t m @ string_format post t)
   \<and> (CHR 0x0A \<notin> set m \<or> t \<le> 0 \<longrightarrow> format_literal u t m = u @ replace m [CHR 0x09] TAB)
   \<and> (CHR 0x09 \<notin> set m \<longrightarrow> replace m [CHR 0x09] TAB = m)
   \<and> (match_quoted [CHR 0x22, CHR 0x22, CHR 0x22] s' = Some m \<and> CHR 0x0A \<in> set m \<and> 0 < t \<longrightarrow>
        (\<exists>body margin.
           m = [CHR 0x22, CHR 0x22, CHR 0x22] @ body @ [CHR 0x22, CHR 0x22, CHR 0x22]
           \<and> list_all is_blank margin
           \<and> (\<forall>l \<in> set (split (CHR 0x0A) (replace body [CHR 0x09] TAB)).
                 \<not> list_all is_blank l \<longrightarrow> startswith l margin)
           \<and> format_literal u t m =
               indent ([CHR 0x22, CHR 0x22, CHR 0x22]
                       @ join ''\<newline>'' (map (dedent_line (length margin))
                           (split (CHR 0x0A) (replace body [CHR 0x09] TAB)))
                       @ [CHR 0x22, CHR 0x22, CHR 0x22]) u))"
proof -
  have unit: "search s = Some (pre, m, post) \<longrightarrow>
      string_format s t =
        indent pre (times TAB t) @ format_literal (times TAB t) t m @ string_format post t"
    using string_format_unfold by blast
  have single: "CHR 0x0A \<notin> set m \<or> t \<le> 0 \<longrightarrow> format_literal u t m = u @ replace m [CHR 0x09] TAB"
  proof
    assume "CHR 0x0A \<notin> set m \<or> t \<le> 0"
    then have "\<not> (count_list (replace m [CHR 0x09] TAB) (CHR 0x0A) > 0 \<and> t > 0)"
      using newline_expanded [of m] count_list_0_iff [of "replace m [CHR 0x09] TAB" "CHR 0x0A"]
      by auto
    then show "format_literal u t m = u @ replace m [CHR 0x09] TAB"
      by (simp only: format_literal_def Let_def if_False)
  qed
  have same: "CHR 0x09 \<notin> set m \<longrightarrow> replace m [CHR 0x09] TAB = m"
    using replace_char_absent by blast
  have multi: "match_quoted [CHR 0x22, CHR 0x22, CHR 0x22] s' = Some m \<and> CHR 0x0A \<in> set m \<and> 0 < t \<longrightarrow>
        (\<exists>body margin.
           m = [CHR 0x22, CHR 0x22, CHR 0x22] @ body @ [CHR 0x22, CHR 0x22, CHR 0x22]
           \<and> list_all is_blank margin
           \<and> (\<forall>l \<in> set (split (CHR 0x0A) (replace body [CHR 0x09] TAB)).
                 \<not> list_all is_blank l \<longrightarrow> startswith l margin)
           \<and> format_literal u t m =
               indent ([CHR 0x22, CHR 0x22, CHR 0x22]
                       @ join ''\<newline>'' (map (dedent_line (length margin))
                           (split (CHR 0x0A) (replace body [CHR 0x09] TAB)))
                       @ [CHR 0x22, CHR 0x22, CHR 0x22]) u)"
  proof
    assume h: "match_quoted [CHR 0x22, CHR 0x22, CHR 0x22] s' = Some m \<and> CHR 0x0A \<in> set m \<and> 0 < t"
    then obtain body where m: "m = [CHR 0x22, CHR 0x22, CHR 0x22] @ body @ [CHR 0x22, CHR 0x22, CHR 0x22]"
      and f: "format_literal u t m =
         indent ([CHR 0x22, CHR 0x22, CHR 0x22] @ dedent (replace body [CHR 0x09] TAB)
                 @ [CHR 0x22, CHR 0x22, CHR 0x22]) u"
      using format_literal_multiline [of s' m t u] by blast
    obtain margin where "list_all is_blank margin"
      and "\<forall>l \<in> set (split (CHR 0x0A) (replace body [CHR 0x09] TAB)).
             \<not> list_all is_blank l \<longrightarrow> startswith l margin"
      and "dedent (replace body [CHR 0x09] TAB) =
             join ''\<newline>'' (map (dedent_line (length margin))
               (split (CHR 0x0A) (replace body [CHR 0x09] TAB)))"
      using dedent_uniform [of "replace body [CHR 0x09] TAB"] by blast
    then show "\<exists>body margin.
           m = [CHR 0x22, CHR 0x22, CHR 0x22] @ body @ [CHR 0x22, CHR 0x22, CHR 0x22]
           \<and> list_all is_blank margin
           \<and> (\<forall>l \<in> set (split (CHR 0x0A) (replace body [CHR 0x09] TAB)).
                 \<not> list_all is_blank l \<longrightarrow> startswith l margin)
           \<and> format_literal u t m =
               indent ([CHR 0x22, CHR 0x22, CHR 0x22]
                       @ join ''\<newline>'' (map (dedent_line (length margin))
                           (split (CHR 0x0A) (replace body [CHR 0x09] TAB)))
                       @ [CHR 0x22, CHR 0x22, CHR 0x22]) u"
      using m f by metis
  qed
  show ?thesis
    using unit single same multi by blast
qed

theorem literal_handling_witness:
  "search ''x = \"\"\"doc\"\"\"\<newline>'' = Some (''x = '', ''\"\"\"doc\"\"\"'', ''\<newline>'')
   \<and> CHR 0x0A \<notin> set ''\"\"\"doc\"\"\"'' \<and> CHR 0x09 \<notin> set ''\"\"\"doc\"\"\"''
   \<and> string_format ''x = \"\"\"doc\"\"\"\<newline>'' 1 = ''    x =     \"\"\"doc\"\"\"\<newline>''
   \<and> match_quoted [CHR 0x22, CHR 0x22, CHR 0x22] ''\"\"\"\<newline>  a\<newline>    b\<newline>  \"\"\"''
       = Some ''\"\"\"\<newline>  a\<newline>    b\<newline>  \"\"\"''
   \<and> format_literal ''    '' 1 ''\"\"\"\<newline>  a\<newline>    b\<newline>  \"\"\"''
       = ''    \"\"\"\<newline>    a\<newline>      b\<newline>    \"\"\"''"
proof -
  let ?s = "''x = \"\"\"doc\"\"\"\<newline>''"
  let ?m = "''\"\"\"doc\"\"\"''"
  let ?d = "''\"\"\"\<newline>  a\<newline>    b\<newline>  \"\"\"''"
  have found: "search ?s = Some (''x = '', ?m, ''\<newline>'')"
    by (simp add: match_here_def match_quoted_def startswith_def)
  have plain: "CHR 0x0A \<notin> set ?m" "CHR 0x09 \<notin> set ?m"
    by simp_all
  have rest: "string_format ''\<newline>'' 1 = ''\<newline>''"
    unfolding string_format_def Let_def
    by (subst over_matches.simps)
      (simp add: match_here_def match_quoted_def startswith_def indent_def strip_def
        rstrip_def is_space_def)
  have before: "indent ''x = '' ''    '' = ''    x = ''"
    by (simp add: indent_def strip_def rstrip_def is_space_def is_linebreak_def)
  have "string_format ?s 1 = indent ''x = '' (times TAB 1) @ format_literal (times TAB 1) 1 ?m
      @ string_format ''\<newline>'' 1"
    using found literal_handling [of ?s "''x = ''" ?m "''\<newline>''" 1] by blast
  moreover have "format_literal (times TAB 1) 1 ?m = times TAB 1 @ ?m"
    using plain literal_handling [of _ _ ?m _ 1 "times TAB 1"] by simp
  ultimately have one: "string_format ?s 1 = ''    x =     \"\"\"doc\"\"\"\<newline>''"
    by (simp add: rest before times_TAB_numeral)
  have matched: "match_quoted [CHR 0x22, CHR 0x22, CHR 0x22] ?d = Some ?d"
    by (simp add: match_quoted_def startswith_def)
  have multi: "format_literal ''    '' 1 ?d = ''    \"\"\"\<newline>    a\<newline>      b\<newline>    \"\"\"''"
    by (simp add: format_literal_def replace_def startswith_def TAB_def dedent_def Let_def
        is_blank_def indent_def strip_def rstrip_def is_space_def is_linebreak_def)
  show ?thesis
    using found plain one matched multi by blast
qed

text \<open>
  C3 as stated fails: a literal on one line that holds a tab comes out with four blanks in
  place of the tab, so its content is changed beyond the indent in front of it.
\<close>

theorem literal_tab_counterexample:
  "string_format (''\"\"\"a'' @ [CHR 0x09] @ ''b\"\"\"'') 1 = ''    \"\"\"a    b\"\"\"''"
  unfolding string_format_def Let_def
  by (subst over_matches.simps, subst over_matches.simps)
    (simp add: match_here_def match_quoted_def startswith_def indent_def
      format_literal_def replace_def TAB_def times_numeral)

text \<open>
  A literal in three single quotes with a line break, at a depth above 0: only double-quote
  delimiters are stripped, so the literal is wrapped in three double quotes, whole.
\<close>

lemma single_quoted_multiline_wrapped:
  "format_literal ''    '' 1
     ([CHR 0x27, CHR 0x27, CHR 0x27] @ ''a\<newline>  b'' @ [CHR 0x27, CHR 0x27, CHR 0x27])
   = ''    \"\"\"'' @ [CHR 0x27, CHR 0x27, CHR 0x27] @ ''a\<newline>      b''
     @ [CHR 0x27, CHR 0x27, CHR 0x27] @ ''\"\"\"''"
  by (simp add: format_literal_def replace_def startswith_def TAB_def dedent_def Let_def
      is_blank_def indent_def strip_def rstrip_def is_space_def is_linebreak_def)




end
